theory Spec2Isabelle
  imports Complex_Main "HOL-Library.Word"
begin

unbundle bit_operations_syntax

section \<open>Varint codec (osm/parser.go)\<close>

type_synonym byte = "8 word"
type_synonym u64 = "64 word"

text \<open>
  \<^verbatim>\<open>readVarint(b []byte) (v uint64, n int)\<close>, the unrolled decoder of parser.go, lines
  164-267. \<^verbatim>\<open>uint64(b[k])\<close> is \<open>ucast\<close>, \<^verbatim>\<open>y << s\<close> is \<open>push_bit s y\<close>, and
  \<open>+\<close> and \<open>-\<close> wrap on 64 bits as in Go. Each \<^verbatim>\<open>len(b) <= k\<close> test guards the
  read of \<^verbatim>\<open>b[k]\<close> that follows it.
\<close>

definition readVarint :: "byte list \<Rightarrow> u64 \<times> nat" where
  "readVarint b =
    (if length b \<le> 0 then (0, 0) else
     let v = (ucast (b ! 0) :: u64) in
     if v < 0x80 then (v, 1) else
     let v = v - 0x80 in
     if length b \<le> 1 then (0, 0) else
     let y = (ucast (b ! 1) :: u64); v = v + push_bit 7 y in
     if y < 0x80 then (v, 2) else
     let v = v - push_bit 7 0x80 in
     if length b \<le> 2 then (0, 0) else
     let y = (ucast (b ! 2) :: u64); v = v + push_bit 14 y in
     if y < 0x80 then (v, 3) else
     let v = v - push_bit 14 0x80 in
     if length b \<le> 3 then (0, 0) else
     let y = (ucast (b ! 3) :: u64); v = v + push_bit 21 y in
     if y < 0x80 then (v, 4) else
     let v = v - push_bit 21 0x80 in
     if length b \<le> 4 then (0, 0) else
     let y = (ucast (b ! 4) :: u64); v = v + push_bit 28 y in
     if y < 0x80 then (v, 5) else
     let v = v - push_bit 28 0x80 in
     if length b \<le> 5 then (0, 0) else
     let y = (ucast (b ! 5) :: u64); v = v + push_bit 35 y in
     if y < 0x80 then (v, 6) else
     let v = v - push_bit 35 0x80 in
     if length b \<le> 6 then (0, 0) else
     let y = (ucast (b ! 6) :: u64); v = v + push_bit 42 y in
     if y < 0x80 then (v, 7) else
     let v = v - push_bit 42 0x80 in
     if length b \<le> 7 then (0, 0) else
     let y = (ucast (b ! 7) :: u64); v = v + push_bit 49 y in
     if y < 0x80 then (v, 8) else
     let v = v - push_bit 49 0x80 in
     if length b \<le> 8 then (0, 0) else
     let y = (ucast (b ! 8) :: u64); v = v + push_bit 56 y in
     if y < 0x80 then (v, 9) else
     let v = v - push_bit 56 0x80 in
     if length b \<le> 9 then (0, 0) else
     let y = (ucast (b ! 9) :: u64); v = v + push_bit 63 y in
     if y < 2 then (v, 10) else (0, 0))"

text \<open>
  \<^verbatim>\<open>readSint\<close>: \<^verbatim>\<open>int64(val>>1) ^ int64(val)<<63>>63\<close>. In Go the shifts bind tighter
  than \<^verbatim>\<open>^\<close>, and \<^verbatim>\<open>>>\<close> on an int64 is the arithmetic shift. An int64 is kept as
  its 64-bit pattern; \<open>sint\<close> reads it.
\<close>

definition readSint :: "byte list \<Rightarrow> u64 \<times> nat" where
  "readSint buf =
    (let (val, index) = readVarint buf
     in (drop_bit 1 val XOR signed_drop_bit 63 (push_bit 63 val), index))"

definition readField :: "byte list \<Rightarrow> u64 \<times> u64 \<times> nat" where
  "readField buf = (let (val, index) = readVarint buf in (drop_bit 3 val, val AND 7, index))"

text \<open>
  \<^verbatim>\<open>skipField\<close>, lines 279-297. The loop of wire type 0 runs \<open>i\<close> from 0 to 8. Go's
  \<^verbatim>\<open>||\<close> does not read \<^verbatim>\<open>buf[i]\<close> when \<^verbatim>\<open>len(buf) <= i\<close>; in the model the
  disjunction is true there whatever \<open>buf ! i\<close> is. The result of wire type 2 is
  \<^verbatim>\<open>int(size) + n\<close> on 64-bit signed integers.
\<close>

function skipVarint :: "nat \<Rightarrow> byte list \<Rightarrow> int" where
  "skipVarint i buf =
    (if i < 9 then
       (if length buf \<le> i \<or> (buf ! i) AND 0x80 \<noteq> 0 then int i + 1
        else skipVarint (i + 1) buf)
     else 10)"
  by pat_completeness auto
termination
  by (relation "measure (\<lambda>(i, buf). 9 - i)") auto

declare skipVarint.simps [simp del]

definition skipField :: "byte list \<Rightarrow> int \<Rightarrow> int" where
  "skipField buf wireType =
    (if wireType = 0 then skipVarint 0 buf
     else if wireType = 1 then 8
     else if wireType = 2 then
       (let (size, n) = readVarint buf in sint (size + word_of_nat n))
     else if wireType = 5 then 4
     else 0)"

subsection \<open>The encodings the decoder is measured against\<close>

text \<open>
  The repository has no encoder. \<open>encode_varint\<close> is the standard base-128 little-endian
  encoding the specification names: seven bits per byte, least significant group first,
  the top bit set on every byte but the last. \<open>zigzag_encode\<close> is the glossary's
  \<^verbatim>\<open>(n << 1) XOR (n >> 63)\<close> with the arithmetic right shift.
\<close>

function encode_varint :: "u64 \<Rightarrow> byte list" where
  "encode_varint x =
     (if x < 0x80 then [ucast x] else (ucast x OR 0x80) # encode_varint (drop_bit 7 x))"
  by pat_completeness auto
termination
  by (relation "measure unat")
     (simp_all add: word_less_nat_alt not_less word_le_nat_alt drop_bit_eq_div unat_div)

declare encode_varint.simps [simp del]

definition zigzag_encode :: "u64 \<Rightarrow> u64" where
  "zigzag_encode n = push_bit 1 n XOR signed_drop_bit 63 n"

text \<open>
  What "n = 0" is claimed to mean: the input ends before a byte without the continuation
  bit was seen (fewer than ten bytes, all with the top bit set), or nine continuation
  bytes are followed by a tenth byte of value 2 or more.
\<close>

definition truncated :: "byte list \<Rightarrow> bool" where
  "truncated b \<longleftrightarrow> length b < 10 \<and> list_all (\<lambda>y. 0x80 \<le> y) b"

definition overflows :: "byte list \<Rightarrow> bool" where
  "overflows b \<longleftrightarrow> 10 \<le> length b \<and> list_all (\<lambda>y. 0x80 \<le> y) (take 9 b) \<and> 2 \<le> b ! 9"

subsection \<open>The unrolled decoder as a loop\<close>

function varint_loop :: "nat \<Rightarrow> u64 \<Rightarrow> byte list \<Rightarrow> u64 \<times> nat" where
  "varint_loop k v b =
     (if length b \<le> k then (0, 0)
      else let y = (ucast (b ! k) :: u64) in
        if 9 \<le> k then (if y < 2 then (v + push_bit 63 y, 10) else (0, 0))
        else let v' = v + push_bit (7 * k) y in
          if y < 0x80 then (v', k + 1)
          else varint_loop (k + 1) (v' - push_bit (7 * k) 0x80) b)"
  by pat_completeness auto
termination
  by (relation "measure (\<lambda>(k, v, b). 10 - k)") auto

declare varint_loop.simps [simp del]

section \<open>Data model (osm/parser.go, extract)\<close>

text \<open>
  A \<^verbatim>\<open>float64\<close> is modelled by a real number. The extractor compares coordinates
  (\<^verbatim>\<open><=\<close>, \<^verbatim>\<open>==\<close>), which is exact on finite floats, and interpolates and sums them,
  which the model does without rounding; NaN and the infinities are outside the model.
  Node coordinates decoded from a file are always finite. A nil slice is the empty list:
  the extractor only ever tests \<^verbatim>\<open>coords != nil\<close> on slices that are nil or have at least
  two elements.

  Struct fields keep their names behind a prefix for the struct (\<open>n_\<close> Node, \<open>w_\<close> Way,
  \<open>mb_\<close> Member, \<open>r_\<close> Relation, \<open>p_\<close> Polygon, \<open>g_\<close> Geometry, \<open>wn_\<close> wayNode,
  \<open>rw_\<close> relationWay).
\<close>

record Coord =
  X :: real
  Y :: real

text \<open>\<^verbatim>\<open>type Bounds [2]Coord\<close>: \<open>fst\<close> is \<^verbatim>\<open>bounds[0]\<close>, \<open>snd\<close> is \<^verbatim>\<open>bounds[1]\<close>.\<close>

type_synonym Bounds = "Coord \<times> Coord"

record Tag =
  Key :: string
  Val :: string

type_synonym Tags = "Tag list"

datatype Type = NodeType | WayType | RelationType

type_synonym Class = "32 word"

type_synonym FilterFunc = "Type \<Rightarrow> u64 \<Rightarrow> Tags \<Rightarrow> Class"

record Node =
  n_ID :: u64
  n_Lon :: real
  n_Lat :: real
  n_Tags :: Tags

record Way =
  w_ID :: u64
  w_Refs :: "u64 list"
  w_Tags :: Tags

record Member =
  mb_ID :: u64
  mb_Type :: Type
  mb_Role :: string

record Relation =
  r_ID :: u64
  r_Members :: "Member list"
  r_Tags :: Tags

record Polygon =
  p_Coords :: "Coord list"
  p_Fill :: bool

record Geometry =
  g_Type :: Type
  g_ID :: u64
  g_Points :: "Coord list"
  g_LineStrings :: "Coord list list"
  g_Polygons :: "Polygon list"
  g_Tags :: Tags

record wayNode =
  wn_Coord :: Coord
  wn_Class :: Class
  wn_Outcode :: byte

record relationWay =
  rw_Coords :: "Coord list"
  rw_First :: u64
  rw_Last :: u64

section \<open>Bounds, outcodes, orientation\<close>

definition Contains :: "Bounds \<Rightarrow> Coord \<Rightarrow> bool" where
  "Contains b c \<longleftrightarrow>
     X (fst b) \<le> X c \<and> X c \<le> X (snd b) \<and> Y (fst b) \<le> Y c \<and> Y c \<le> Y (snd b)"

text \<open>\<^verbatim>\<open>Tags.IsArea\<close>: the loop over the tags with its two early returns.\<close>

fun IsArea_loop :: "Tags \<Rightarrow> bool \<Rightarrow> bool" where
  "IsArea_loop [] area = area"
| "IsArea_loop (tag # tags) area =
     (if Key tag = ''area'' \<and> Val tag = ''yes'' then True
      else if Key tag = ''area'' \<and> Val tag = ''no'' then False
      else if Key tag = ''building'' \<or> Key tag = ''landuse'' \<or> Key tag = ''amenity''
           \<or> Key tag = ''shop'' \<or> Key tag = ''building:part'' \<or> Key tag = ''boundary''
           \<or> Key tag = ''historic'' \<or> Key tag = ''place'' \<or> Key tag = ''area:highway''
           \<or> Key tag = ''waterway'' \<and> Val tag = ''riverbank''
           \<or> Key tag = ''highway'' \<and> (Val tag = ''rest_area'' \<or> Val tag = ''services''
                \<or> Val tag = ''platform'')
           \<or> Key tag = ''railway'' \<and> Val tag = ''platform''
           \<or> Key tag = ''natural'' \<and> (Val tag = ''water'' \<or> Val tag = ''wood''
                \<or> Val tag = ''scrub'' \<or> Val tag = ''wetland'' \<or> Val tag = ''grassland''
                \<or> Val tag = ''heath'' \<or> Val tag = ''rock'' \<or> Val tag = ''bare_rock''
                \<or> Val tag = ''sand'' \<or> Val tag = ''beach'' \<or> Val tag = ''scree''
                \<or> Val tag = ''bay'' \<or> Val tag = ''glacier'' \<or> Val tag = ''shingle''
                \<or> Val tag = ''fell'' \<or> Val tag = ''reef'' \<or> Val tag = ''stone''
                \<or> Val tag = ''mud'' \<or> Val tag = ''landslide'' \<or> Val tag = ''sinkhole''
                \<or> Val tag = ''crevasse'' \<or> Val tag = ''desert'')
           \<or> Key tag = ''leisure'' \<and> (Val tag \<noteq> ''picnic_table'' \<and> Val tag \<noteq> ''slipway''
                \<and> Val tag \<noteq> ''firepit'')
           \<or> Key tag = ''aeroway'' \<and> Val tag = ''aerodrome''
        then IsArea_loop tags True
      else if Key tag = ''natural'' \<and> Val tag = ''coastline'' then IsArea_loop tags True
      else IsArea_loop tags area)"

definition IsArea :: "Tags \<Rightarrow> bool" where
  "IsArea tags = IsArea_loop tags False"

text \<open>
  \<^verbatim>\<open>isCCW\<close>: \<open>shoelace\<close> is the sum \<^verbatim>\<open>a\<close> its loop accumulates, over \<open>i\<close> from 0 to
  \<^verbatim>\<open>len(coords) - 1\<close> with \<^verbatim>\<open>q = coords[(i+1)%len(coords)]\<close>; the result is
  \<^verbatim>\<open>0.0 <= a\<close>.
\<close>

definition shoelace :: "Coord list \<Rightarrow> real" where
  "shoelace coords =
     foldl (\<lambda>a i. let p = coords ! i; q = coords ! ((i + 1) mod length coords)
                   in a + (X p * Y q - Y p * X q))
       0 [0..<length coords]"

definition isCCW :: "Coord list \<Rightarrow> bool" where
  "isCCW coords \<longleftrightarrow> 0 \<le> shoelace coords"

text \<open>
  \<^verbatim>\<open>reverseOrientation\<close> allocates \<^verbatim>\<open>coords2\<close>, fills it from both ends and returns
  it. Its argument is only read: a caller that drops the result keeps the sequence it
  passed.
\<close>

definition reverseOrientation :: "Coord list \<Rightarrow> Coord list" where
  "reverseOrientation coords =
     (let n = length coords;
          coords2 = replicate n \<lparr>X = 0, Y = 0\<rparr>;
          coords2 = foldl (\<lambda>c2 i. c2[i := coords ! (n - i - 1), n - i - 1 := coords ! i])
                      coords2 [0..<n div 2];
          coords2 = (if n mod 2 = 1 then coords2[n div 2 := coords ! (n div 2)] else coords2)
      in coords2)"

definition cohenSutherlandOutcode :: "Bounds \<Rightarrow> Coord \<Rightarrow> byte" where
  "cohenSutherlandOutcode bounds c =
     (let code = (0 :: byte);
          code = (if X c \<le> X (fst bounds) then code OR 1
                  else if X (snd bounds) \<le> X c then code OR 2 else code);
          code = (if Y c \<le> Y (fst bounds) then code OR 4
                  else if Y (snd bounds) \<le> Y c then code OR 8 else code)
      in code)"

text \<open>
  \<^verbatim>\<open>clipCoord\<close>. Its callers pass an \<open>inner\<close> point of outcode 0 and an \<open>outer\<close> point
  with the given outcode, so no divisor is zero.
\<close>

definition clipCoord :: "Bounds \<Rightarrow> Coord \<Rightarrow> Coord \<Rightarrow> byte \<Rightarrow> Coord" where
  "clipCoord bounds inner outer outerOutcode =
     (if outerOutcode = 1 then
        (let t = (X (fst bounds) - X inner) / (X outer - X inner)
         in \<lparr>X = X (fst bounds), Y = Y inner + t * (Y outer - Y inner)\<rparr>)
      else if outerOutcode = 2 then
        (let t = (X (snd bounds) - X inner) / (X outer - X inner)
         in \<lparr>X = X (snd bounds), Y = Y inner + t * (Y outer - Y inner)\<rparr>)
      else if outerOutcode = 4 then
        (let t = (Y (fst bounds) - Y inner) / (Y outer - Y inner)
         in \<lparr>X = X inner + t * (X outer - X inner), Y = Y (fst bounds)\<rparr>)
      else if outerOutcode = 8 then
        (let t = (Y (snd bounds) - Y inner) / (Y outer - Y inner)
         in \<lparr>X = X inner + t * (X outer - X inner), Y = Y (snd bounds)\<rparr>)
      else if outerOutcode \<noteq> 5 \<and> outerOutcode \<noteq> 9 \<and> outerOutcode \<noteq> 6 \<and> outerOutcode \<noteq> 10
        then outer
      else
        (let anchor = (if outerOutcode = 5 then fst bounds
                       else if outerOutcode = 9 then \<lparr>X = X (fst bounds), Y = Y (snd bounds)\<rparr>
                       else if outerOutcode = 6 then \<lparr>X = X (snd bounds), Y = Y (fst bounds)\<rparr>
                       else snd bounds);
             tx = (X anchor - X inner) / (X outer - X inner);
             ty = (Y anchor - Y inner) / (Y outer - Y inner)
         in if tx < ty then \<lparr>X = X inner + tx * (X outer - X inner), Y = Y anchor\<rparr>
            else \<lparr>X = X anchor, Y = Y inner + ty * (Y outer - Y inner)\<rparr>))"

section \<open>Relation way assembly\<close>

text \<open>
  \<^verbatim>\<open>appendCoords\<close>. The \<^verbatim>\<open>for\<close> loop changes \<open>a\<close> or \<open>b\<close> only in its two branches;
  when neither test holds the body does nothing and the loop condition is unchanged.
  \<open>None\<close> is the loop that never ends.
\<close>

partial_function (option) appendCoords :: "Coord list \<Rightarrow> Coord list \<Rightarrow> Coord list option" where
  "appendCoords a b =
     (if 0 < length a \<and> 1 < length b then
        (if b ! 0 = last a then appendCoords (butlast a) b
         else if b ! 1 = last a then appendCoords a (drop 2 b)
         else appendCoords a b)
      else Some (a @ b))"

text \<open>
  \<^verbatim>\<open>connectRelationWays\<close>. The state is the four slices of the function. The inner loop
  \<^verbatim>\<open>for i := 0; i < k; i++\<close> restarts with \<^verbatim>\<open>k = i; i = 0; continue\<close>, and the
  \<^verbatim>\<open>continue\<close> runs the post statement \<^verbatim>\<open>i++\<close>: the restarted loop begins at 1.
  All indices are below \<open>length ways\<close>, the length of every slice.
\<close>

record crw_state =
  polygons :: "Coord list list"
  handled :: "bool list"
  wayCoords :: "Coord list list"
  endpoints :: "(u64 \<times> u64) list"

function crw_inner ::
  "u64 \<Rightarrow> u64 \<Rightarrow> bool \<Rightarrow> bool \<Rightarrow> nat \<Rightarrow> nat \<Rightarrow> crw_state \<Rightarrow> crw_state option" where
  "crw_inner start_id end_id startConnected endConnected i k s =
     (if i < k then
        (if \<not> handled s ! i then
           (if \<not> endConnected \<and> fst (endpoints s ! i) = end_id then
              (case appendCoords (wayCoords s ! k) (wayCoords s ! i) of
                 None \<Rightarrow> None
               | Some c \<Rightarrow>
                   (let s' = s\<lparr>wayCoords := (wayCoords s)[i := c],
                                handled := (handled s)[k := True]\<rparr>
                    in if startConnected then Some s'
                       else crw_inner start_id end_id startConnected True 1 i s'))
            else if \<not> startConnected \<and> snd (endpoints s ! i) = start_id then
              (case appendCoords (wayCoords s ! i) (wayCoords s ! k) of
                 None \<Rightarrow> None
               | Some c \<Rightarrow>
                   (let s' = s\<lparr>wayCoords := (wayCoords s)[i := c],
                                handled := (handled s)[k := True]\<rparr>
                    in if endConnected then Some s'
                       else crw_inner start_id end_id True endConnected 1 i s'))
            else crw_inner start_id end_id startConnected endConnected (i + 1) k s)
         else crw_inner start_id end_id startConnected endConnected (i + 1) k s)
      else Some s)"
  by pat_completeness auto
termination
  by (relation "measures [\<lambda>(a, b, c, d, i, k, s). k, \<lambda>(a, b, c, d, i, k, s). k - i]") auto

declare crw_inner.simps [simp del]

function crw_outer :: "relationWay list \<Rightarrow> nat \<Rightarrow> crw_state \<Rightarrow> crw_state option" where
  "crw_outer ways j s =
     (if j < length ways then
        (let way = ways ! j in
         if rw_First way = rw_Last way then
           crw_outer ways (j + 1)
             (s\<lparr>polygons := (if 2 < length (rw_Coords way)
                               then polygons s @ [rw_Coords way] else polygons s),
                handled := (handled s)[j := True]\<rparr>)
         else
           (case crw_inner (rw_First way) (rw_Last way) False False 0 j
                   (s\<lparr>wayCoords := (wayCoords s)[j := rw_Coords way]\<rparr>) of
              None \<Rightarrow> None
            | Some s' \<Rightarrow>
                crw_outer ways (j + 1)
                  (s'\<lparr>endpoints := (endpoints s')[j := (rw_First way, rw_Last way)]\<rparr>)))
      else Some s)"
  by pat_completeness auto
termination
  by (relation "measure (\<lambda>(ways, j, s). length ways - j)") auto

declare crw_outer.simps [simp del]

definition connectRelationWays :: "relationWay list \<Rightarrow> Coord list list option" where
  "connectRelationWays ways =
     (let n = length ways in
      case crw_outer ways 0
             \<lparr>polygons = [], handled = replicate n False, wayCoords = replicate n [],
              endpoints = replicate n (0, 0)\<rparr> of
        None \<Rightarrow> None
      | Some s \<Rightarrow>
          Some (polygons s @
                map (\<lambda>i. wayCoords s ! i)
                  (filter (\<lambda>i. \<not> handled s ! i \<and> 2 < length (wayCoords s ! i)) [0..<n])))"

section \<open>Dense uint64 map and set\<close>

text \<open>
  Results. A Go panic and a returned \<^verbatim>\<open>error\<close> are values of \<open>error\<close>; a function that
  can fail returns \<open>error + 'a\<close>. A function with a loop that has no bound of its own (the
  probe loops \<^verbatim>\<open>for { ... }\<close> of the containers) returns an option around that: \<open>None\<close>
  is the call that never returns.

  The fields of \<^verbatim>\<open>Map\<close> carry the prefix \<open>m_\<close>, those of \<^verbatim>\<open>Set\<close> the prefix \<open>s_\<close>; a
  method \<^verbatim>\<open>(m *Map) Put\<close> is \<open>Map_Put\<close>. Go's \<^verbatim>\<open>int\<close> is \<open>int\<close> (sizes stay far from
  \<open>2^63\<close>), \<^verbatim>\<open>uint64\<close> is a 64-bit word. \<^verbatim>\<open>fillFactor\<close> is a real, and
  \<^verbatim>\<open>math.Floor(float64(n) * fillFactor)\<close> is the floor of the real product.
\<close>

datatype error = Panic string | Err string

type_synonym 'a result = "(error + 'a) option"

definition index_out_of_range :: error where
  "index_out_of_range = Panic ''index out of range''"

definition INT_PHI :: u64 where
  "INT_PHI = 0x9E3779B9"

definition FREE_KEY :: u64 where
  "FREE_KEY = 0"

definition phiMix :: "u64 \<Rightarrow> u64" where
  "phiMix x = (let h = x * INT_PHI in h XOR drop_bit 16 h)"

definition nextPowerOf2 :: "32 word \<Rightarrow> 32 word" where
  "nextPowerOf2 x =
     (if x = - 1 then x
      else if x = 0 then 1
      else let x = x - 1;
               x = x OR drop_bit 1 x;
               x = x OR drop_bit 2 x;
               x = x OR drop_bit 4 x;
               x = x OR drop_bit 8 x;
               x = x OR drop_bit 16 x
           in x + 1)"

definition arraySize :: "int \<Rightarrow> real \<Rightarrow> int" where
  "arraySize exp' fill =
     (let s = nextPowerOf2 (word_of_int \<lceil>real_of_int exp' / fill\<rceil>);
          s = (if s < 2 then 2 else s)
      in uint s)"

subsection \<open>Map\<close>

record Map =
  m_data :: "u64 list"
  m_fillFactor :: real
  m_threshold :: int
  m_size :: int
  m_mask :: u64
  m_mask2 :: u64
  m_hasFreeKey :: bool
  m_freeVal :: u64

definition NewUint64Map :: "int \<Rightarrow> real \<Rightarrow> error + Map" where
  "NewUint64Map size' fillFactor =
     (if fillFactor \<le> 0 \<or> 1 \<le> fillFactor then Inl (Panic ''fillFactor must be in [0,1]'')
      else if size' \<le> 0 then Inl (Panic ''size must be positive'')
      else let capacity = arraySize size' fillFactor in
        Inr \<lparr>m_data = replicate (nat (2 * capacity)) 0,
             m_fillFactor = fillFactor,
             m_threshold = \<lfloor>real_of_int capacity * fillFactor\<rfloor>,
             m_size = 0,
             m_mask = word_of_int (capacity - 1),
             m_mask2 = word_of_int (2 * capacity - 1),
             m_hasFreeKey = False,
             m_freeVal = 0\<rparr>)"

text \<open>
  The probe loops carry \<open>ptr\<close> and the key \<open>k\<close> read at \<open>ptr\<close>, as the source does. Every
  read and write of \<^verbatim>\<open>m.data\<close> is checked against the length.
\<close>

partial_function (option) Map_Has_loop :: "Map \<Rightarrow> u64 \<Rightarrow> u64 \<Rightarrow> u64 \<Rightarrow> bool result" where
  "Map_Has_loop m key ptr k =
     (if k = FREE_KEY then Some (Inr False)
      else if k = key then Some (Inr True)
      else let ptr = (ptr + 2) AND m_mask2 m in
        if unat ptr < length (m_data m) then Map_Has_loop m key ptr (m_data m ! unat ptr)
        else Some (Inl index_out_of_range))"

definition Map_Has :: "Map \<Rightarrow> u64 \<Rightarrow> bool result" where
  "Map_Has m key =
     (if key = FREE_KEY then Some (Inr (m_hasFreeKey m))
      else let ptr = push_bit 1 (phiMix key AND m_mask m) in
        if length (m_data m) \<le> unat ptr then Some (Inr False)
        else Map_Has_loop m key ptr (m_data m ! unat ptr))"

partial_function (option) Map_Get_loop ::
  "Map \<Rightarrow> u64 \<Rightarrow> u64 \<Rightarrow> u64 \<Rightarrow> (u64 \<times> bool) result" where
  "Map_Get_loop m key ptr k =
     (if k = FREE_KEY then Some (Inr (0, False))
      else if k = key then
        (if unat (ptr + 1) < length (m_data m)
         then Some (Inr (m_data m ! unat (ptr + 1), True))
         else Some (Inl index_out_of_range))
      else let ptr = (ptr + 2) AND m_mask2 m in
        if unat ptr < length (m_data m) then Map_Get_loop m key ptr (m_data m ! unat ptr)
        else Some (Inl index_out_of_range))"

definition Map_Get :: "Map \<Rightarrow> u64 \<Rightarrow> (u64 \<times> bool) result" where
  "Map_Get m key =
     (if key = FREE_KEY then
        (if m_hasFreeKey m then Some (Inr (m_freeVal m, True)) else Some (Inr (0, False)))
      else let ptr = push_bit 1 (phiMix key AND m_mask m) in
        if length (m_data m) \<le> unat ptr then Some (Inr (0, False))
        else Map_Get_loop m key ptr (m_data m ! unat ptr))"

text \<open>
  \<^verbatim>\<open>rehash\<close> calls \<^verbatim>\<open>Put\<close> for every entry of the old array, and \<^verbatim>\<open>Put\<close> calls
  \<^verbatim>\<open>rehash\<close> when the map is at its threshold. \<open>Map_rehash_loop\<close> is the loop
  \<^verbatim>\<open>for i := 0; i < len(old); i += 2\<close> with the \<^verbatim>\<open>Put\<close> it calls as a parameter, and
  \<open>Map_rehash_with\<close> is \<^verbatim>\<open>rehash\<close> over that parameter; \<open>Map_Put_loop\<close> ties the knot.
\<close>

function Map_rehash_loop ::
  "(Map \<Rightarrow> u64 \<Rightarrow> u64 \<Rightarrow> Map result) \<Rightarrow> u64 list \<Rightarrow> nat \<Rightarrow> Map \<Rightarrow> Map result" where
  "Map_rehash_loop put old i m =
     (if i < length old then
        (let k = old ! i in
         if k \<noteq> FREE_KEY then
           (if i + 1 < length old then
              (case put m k (old ! (i + 1)) of
                 None \<Rightarrow> None
               | Some (Inl e) \<Rightarrow> Some (Inl e)
               | Some (Inr m') \<Rightarrow> Map_rehash_loop put old (i + 2) m')
            else Some (Inl index_out_of_range))
         else Map_rehash_loop put old (i + 2) m)
      else Some (Inr m))"
  by pat_completeness auto
termination
  by (relation "measure (\<lambda>(put, old, i, m). length old - i)") auto

declare Map_rehash_loop.simps [simp del]

definition Map_rehash_with :: "(Map \<Rightarrow> u64 \<Rightarrow> u64 \<Rightarrow> Map result) \<Rightarrow> Map \<Rightarrow> Map result" where
  "Map_rehash_with put m =
     (let newCapacity = length (m_data m) * 2;
          old = m_data m;
          m = m\<lparr>m_threshold := \<lfloor>real (length (m_data m)) * m_fillFactor m\<rfloor>,
                m_mask := word_of_int (int (length (m_data m)) - 1),
                m_mask2 := word_of_int (int newCapacity - 1),
                m_size := (if m_hasFreeKey m then 1 else 0),
                m_data := replicate newCapacity 0\<rparr>
      in Map_rehash_loop put old 0 m)"

lemma Map_rehash_loop_mono [partial_function_mono]:
  assumes "\<And>m k v. mono_option (\<lambda>f. put f m k v)"
  shows "mono_option (\<lambda>f. Map_rehash_loop (put f) old i m)"
proof (induction "length old - i" arbitrary: i m rule: less_induct)
  case less
  show ?case
  proof (cases "i < length old")
    case False
    then show ?thesis
      by (subst Map_rehash_loop.simps) (simp add: option.const_mono)
  next
    case True
    show ?thesis
    proof (cases "old ! i \<noteq> FREE_KEY")
      case False
      with True show ?thesis
        by (subst Map_rehash_loop.simps) (simp add: less)
    next
      case k: True
      show ?thesis
      proof (cases "i + 1 < length old")
        case False
        with True k show ?thesis
          by (subst Map_rehash_loop.simps) (simp add: option.const_mono)
      next
        case i1: True
        have eq: "(\<lambda>f. Map_rehash_loop (put f) old i m) =
          (\<lambda>f. Option.bind (put f m (old ! i) (old ! (i + 1)))
             (\<lambda>r. case r of Inl e \<Rightarrow> Some (Inl e)
                   | Inr m' \<Rightarrow> Map_rehash_loop (put f) old (i + 2) m'))"
        proof (rule ext)
          fix f
          show "Map_rehash_loop (put f) old i m =
            Option.bind (put f m (old ! i) (old ! (i + 1)))
             (\<lambda>r. case r of Inl e \<Rightarrow> Some (Inl e)
                   | Inr m' \<Rightarrow> Map_rehash_loop (put f) old (i + 2) m')"
            using True k i1
            by (subst Map_rehash_loop.simps) (simp split: option.splits sum.splits)
        qed
        show ?thesis
          unfolding eq
        proof (rule bind_mono)
          show "mono_option (\<lambda>f. put f m (old ! i) (old ! (i + 1)))"
            by (rule assms)
        next
          fix y :: "error + Map"
          show "mono_option (\<lambda>f. case y of Inl e \<Rightarrow> Some (Inl e)
                   | Inr m' \<Rightarrow> Map_rehash_loop (put f) old (i + 2) m')"
            using True by (cases y) (simp_all add: option.const_mono less)
        qed
      qed
    qed
  qed
qed


lemma Map_rehash_with_mono [partial_function_mono]:
  assumes "\<And>m k v. mono_option (\<lambda>f. put f m k v)"
  shows "mono_option (\<lambda>f. Map_rehash_with (put f) m)"
  unfolding Map_rehash_with_def Let_def
  by (rule Map_rehash_loop_mono) (rule assms)

partial_function (option) Map_Put_loop :: "Map \<Rightarrow> u64 \<Rightarrow> u64 \<Rightarrow> u64 \<Rightarrow> u64 \<Rightarrow> Map result" where
  "Map_Put_loop m key val ptr k =
     (if k = FREE_KEY then
        (if unat (ptr + 1) < length (m_data m) then
           (let m = m\<lparr>m_data := (m_data m)[unat ptr := key, unat (ptr + 1) := val]\<rparr> in
            if m_threshold m \<le> m_size m then
              Map_rehash_with
                (\<lambda>m key val.
                   if key = FREE_KEY then
                     Some (Inr (m\<lparr>m_freeVal := val,
                                  m_size := (if \<not> m_hasFreeKey m then m_size m + 1 else m_size m),
                                  m_hasFreeKey := True\<rparr>))
                   else let ptr = push_bit 1 (phiMix key AND m_mask m) in
                     if unat ptr < length (m_data m)
                     then Map_Put_loop m key val ptr (m_data m ! unat ptr)
                     else Some (Inl index_out_of_range)) m
            else Some (Inr (m\<lparr>m_size := m_size m + 1\<rparr>)))
         else Some (Inl index_out_of_range))
      else if k = key then
        (if unat (ptr + 1) < length (m_data m)
         then Some (Inr (m\<lparr>m_data := (m_data m)[unat (ptr + 1) := val]\<rparr>))
         else Some (Inl index_out_of_range))
      else let ptr = (ptr + 2) AND m_mask2 m in
        if unat ptr < length (m_data m) then Map_Put_loop m key val ptr (m_data m ! unat ptr)
        else Some (Inl index_out_of_range))"

definition Map_Put :: "Map \<Rightarrow> u64 \<Rightarrow> u64 \<Rightarrow> Map result" where
  "Map_Put m key val =
     (if key = FREE_KEY then
        Some (Inr (m\<lparr>m_freeVal := val,
                     m_size := (if \<not> m_hasFreeKey m then m_size m + 1 else m_size m),
                     m_hasFreeKey := True\<rparr>))
      else let ptr = push_bit 1 (phiMix key AND m_mask m) in
        if unat ptr < length (m_data m)
        then Map_Put_loop m key val ptr (m_data m ! unat ptr)
        else Some (Inl index_out_of_range))"

definition Map_rehash :: "Map \<Rightarrow> Map result" where
  "Map_rehash m = Map_rehash_with Map_Put m"

text \<open>
  \<^verbatim>\<open>shiftKeys\<close>: the inner loop looks for the next position that is free or holds a
  key that may move back to \<open>last\<close>; it returns that position and the key read there and
  leaves the array as it is. The outer loop moves the entry and goes on from there.
\<close>

partial_function (option) Map_shiftKeys_inner ::
  "Map \<Rightarrow> u64 \<Rightarrow> u64 \<Rightarrow> (u64 \<times> u64) result" where
  "Map_shiftKeys_inner m last' pos =
     (if unat pos < length (m_data m) then
        (let k = m_data m ! unat pos in
         if k = FREE_KEY then Some (Inr (pos, k))
         else let slot = push_bit 1 (phiMix k AND m_mask m) in
           if (if last' \<le> pos then slot \<le> last' \<or> pos < slot
               else slot \<le> last' \<and> pos < slot)
           then Some (Inr (pos, k))
           else Map_shiftKeys_inner m last' ((pos + 2) AND m_mask2 m))
      else Some (Inl index_out_of_range))"

partial_function (option) Map_shiftKeys :: "Map \<Rightarrow> u64 \<Rightarrow> (Map \<times> u64) result" where
  "Map_shiftKeys m pos =
     (let last' = pos in
      case Map_shiftKeys_inner m last' ((last' + 2) AND m_mask2 m) of
        None \<Rightarrow> None
      | Some (Inl e) \<Rightarrow> Some (Inl e)
      | Some (Inr (pos, k)) \<Rightarrow>
          if k = FREE_KEY then
            (if unat last' < length (m_data m)
             then Some (Inr (m\<lparr>m_data := (m_data m)[unat last' := FREE_KEY]\<rparr>, last'))
             else Some (Inl index_out_of_range))
          else
            (if unat last' < length (m_data m) \<and> unat (last' + 1) < length (m_data m)
                \<and> unat (pos + 1) < length (m_data m)
             then
               (let d = (m_data m)[unat last' := k];
                    d = d[unat (last' + 1) := d ! unat (pos + 1)]
                in Map_shiftKeys (m\<lparr>m_data := d\<rparr>) pos)
             else Some (Inl index_out_of_range)))"

partial_function (option) Map_Del_loop :: "Map \<Rightarrow> u64 \<Rightarrow> u64 \<Rightarrow> u64 \<Rightarrow> Map result" where
  "Map_Del_loop m key ptr k =
     (if k = key then
        (case Map_shiftKeys m ptr of
           None \<Rightarrow> None
         | Some (Inl e) \<Rightarrow> Some (Inl e)
         | Some (Inr (m, r)) \<Rightarrow> Some (Inr (m\<lparr>m_size := m_size m - 1\<rparr>)))
      else if k = FREE_KEY then Some (Inr m)
      else let ptr = (ptr + 2) AND m_mask2 m in
        if unat ptr < length (m_data m) then Map_Del_loop m key ptr (m_data m ! unat ptr)
        else Some (Inl index_out_of_range))"

definition Map_Del :: "Map \<Rightarrow> u64 \<Rightarrow> Map result" where
  "Map_Del m key =
     (if key = FREE_KEY then
        Some (Inr (if m_hasFreeKey m
                   then m\<lparr>m_hasFreeKey := False, m_size := m_size m - 1\<rparr> else m))
      else let ptr = push_bit 1 (phiMix key AND m_mask m) in
        if unat ptr < length (m_data m)
        then Map_Del_loop m key ptr (m_data m ! unat ptr)
        else Some (Inl index_out_of_range))"

definition Map_Size :: "Map \<Rightarrow> int" where
  "Map_Size m = m_size m"

subsection \<open>Set\<close>

text \<open>
  \<^verbatim>\<open>Add\<close> and \<^verbatim>\<open>Del\<close> of the set probe the home slot before their loop and every
  next slot inside it, with the same tests; \<open>Set_Add_probe\<close> and \<open>Set_Del_probe\<close> are
  that test at a slot \<open>ptr\<close>, followed by the step to \<^verbatim>\<open>(ptr + 1) & m.mask2\<close>. \<^verbatim>\<open>Has\<close>
  tests the home slot differently from the others and is modelled as written.
  \<^verbatim>\<open>shiftKeys\<close> of the set computes with \<^verbatim>\<open>int64\<close>: positions are 64-bit words read
  by \<open>sint\<close>.
\<close>

record Set =
  s_data :: "u64 list"
  s_fillFactor :: real
  s_threshold :: int
  s_size :: int
  s_mask :: u64
  s_mask2 :: u64
  s_hasFreeKey :: bool

definition NewUint64Set :: "int \<Rightarrow> real \<Rightarrow> error + Set" where
  "NewUint64Set size' fillFactor =
     (if fillFactor \<le> 0 \<or> 1 \<le> fillFactor then Inl (Panic ''FillFactor must be in (0, 1)'')
      else if size' \<le> 0 then Inl (Panic ''Size must be positive'')
      else let capacity = arraySize size' fillFactor in
        Inr \<lparr>s_data = replicate (nat capacity) 0,
             s_fillFactor = fillFactor,
             s_threshold = \<lfloor>real_of_int capacity * fillFactor\<rfloor>,
             s_size = 0,
             s_mask = word_of_int (capacity - 1),
             s_mask2 = word_of_int (capacity - 1),
             s_hasFreeKey = False\<rparr>)"

partial_function (option) Set_Has_loop :: "Set \<Rightarrow> u64 \<Rightarrow> u64 \<Rightarrow> bool result" where
  "Set_Has_loop m key ptr =
     (let ptr = (ptr + 1) AND s_mask2 m in
      if unat ptr < length (s_data m) then
        (let k = s_data m ! unat ptr in
         if k = FREE_KEY then Some (Inr False)
         else if k = key then Some (Inr True)
         else Set_Has_loop m key ptr)
      else Some (Inl index_out_of_range))"

definition Set_Has :: "Set \<Rightarrow> u64 \<Rightarrow> bool result" where
  "Set_Has m key =
     (if key = FREE_KEY then Some (Inr (if s_hasFreeKey m then True else False))
      else let ptr = phiMix key AND s_mask m in
        if unat ptr < length (s_data m) then
          (let k = s_data m ! unat ptr in
           if key = FREE_KEY then Some (Inr False)
           else if k = key then Some (Inr True)
           else Set_Has_loop m key ptr)
        else Some (Inl index_out_of_range))"

function Set_rehash_loop ::
  "(Set \<Rightarrow> u64 \<Rightarrow> Set result) \<Rightarrow> u64 list \<Rightarrow> nat \<Rightarrow> Set \<Rightarrow> Set result" where
  "Set_rehash_loop add old i m =
     (if i < length old then
        (let k = old ! i in
         if k \<noteq> FREE_KEY then
           (case add m k of
              None \<Rightarrow> None
            | Some (Inl e) \<Rightarrow> Some (Inl e)
            | Some (Inr m') \<Rightarrow> Set_rehash_loop add old (i + 1) m')
         else Set_rehash_loop add old (i + 1) m)
      else Some (Inr m))"
  by pat_completeness auto
termination
  by (relation "measure (\<lambda>(add, old, i, m). length old - i)") auto

declare Set_rehash_loop.simps [simp del]

definition Set_rehash_with :: "(Set \<Rightarrow> u64 \<Rightarrow> Set result) \<Rightarrow> Set \<Rightarrow> Set result" where
  "Set_rehash_with add m =
     (let newCapacity = length (s_data m) * 2;
          old = s_data m;
          m = m\<lparr>s_threshold := \<lfloor>real (newCapacity div 2) * s_fillFactor m\<rfloor>,
                s_mask := word_of_int (int newCapacity - 1),
                s_mask2 := word_of_int (int newCapacity - 1),
                s_data := replicate newCapacity 0,
                s_size := (if s_hasFreeKey m then 1 else 0)\<rparr>
      in Set_rehash_loop add old 0 m)"

lemma Set_rehash_loop_mono [partial_function_mono]:
  assumes "\<And>m k. mono_option (\<lambda>f. add f m k)"
  shows "mono_option (\<lambda>f. Set_rehash_loop (add f) old i m)"
proof (induction "length old - i" arbitrary: i m rule: less_induct)
  case less
  show ?case
  proof (cases "i < length old")
    case False
    then show ?thesis
      by (subst Set_rehash_loop.simps) (simp add: option.const_mono)
  next
    case True
    show ?thesis
    proof (cases "old ! i \<noteq> FREE_KEY")
      case False
      with True show ?thesis
        by (subst Set_rehash_loop.simps) (simp add: less)
    next
      case k: True
      have eq: "(\<lambda>f. Set_rehash_loop (add f) old i m) =
          (\<lambda>f. Option.bind (add f m (old ! i))
             (\<lambda>r. case r of Inl e \<Rightarrow> Some (Inl e)
                   | Inr m' \<Rightarrow> Set_rehash_loop (add f) old (i + 1) m'))"
      proof (rule ext)
        fix f
        show "Set_rehash_loop (add f) old i m =
            Option.bind (add f m (old ! i))
             (\<lambda>r. case r of Inl e \<Rightarrow> Some (Inl e)
                   | Inr m' \<Rightarrow> Set_rehash_loop (add f) old (i + 1) m')"
          using True k
          by (subst Set_rehash_loop.simps) (simp split: option.splits sum.splits)
      qed
      show ?thesis
        unfolding eq
      proof (rule bind_mono)
        show "mono_option (\<lambda>f. add f m (old ! i))"
          by (rule assms)
      next
        fix y :: "error + Set"
        show "mono_option (\<lambda>f. case y of Inl e \<Rightarrow> Some (Inl e)
                 | Inr m' \<Rightarrow> Set_rehash_loop (add f) old (i + 1) m')"
          using True by (cases y) (simp_all add: option.const_mono less)
      qed
    qed
  qed
qed

lemma Set_rehash_with_mono [partial_function_mono]:
  assumes "\<And>m k. mono_option (\<lambda>f. add f m k)"
  shows "mono_option (\<lambda>f. Set_rehash_with (add f) m)"
  unfolding Set_rehash_with_def Let_def
  by (rule Set_rehash_loop_mono) (rule assms)

partial_function (option) Set_Add_probe :: "Set \<Rightarrow> u64 \<Rightarrow> u64 \<Rightarrow> Set result" where
  "Set_Add_probe m key ptr =
     (if unat ptr < length (s_data m) then
        (let k = s_data m ! unat ptr in
         if k = FREE_KEY then
           (let m = m\<lparr>s_data := (s_data m)[unat ptr := key]\<rparr> in
            if s_threshold m \<le> s_size m then
              Set_rehash_with
                (\<lambda>m key.
                   if key = FREE_KEY then
                     Some (Inr (m\<lparr>s_size := (if \<not> s_hasFreeKey m then s_size m + 1
                                                else s_size m),
                                  s_hasFreeKey := True\<rparr>))
                   else Set_Add_probe m key (phiMix key AND s_mask m)) m
            else Some (Inr (m\<lparr>s_size := s_size m + 1\<rparr>)))
         else if k = key then Some (Inr m)
         else Set_Add_probe m key ((ptr + 1) AND s_mask2 m))
      else Some (Inl index_out_of_range))"

definition Set_Add :: "Set \<Rightarrow> u64 \<Rightarrow> Set result" where
  "Set_Add m key =
     (if key = FREE_KEY then
        Some (Inr (m\<lparr>s_size := (if \<not> s_hasFreeKey m then s_size m + 1 else s_size m),
                     s_hasFreeKey := True\<rparr>))
      else Set_Add_probe m key (phiMix key AND s_mask m))"

definition Set_rehash :: "Set \<Rightarrow> Set result" where
  "Set_rehash m = Set_rehash_with Set_Add m"

definition in_range64 :: "u64 \<Rightarrow> 'a list \<Rightarrow> bool" where
  "in_range64 pos xs \<longleftrightarrow> 0 \<le> sint pos \<and> nat (sint pos) < length xs"

partial_function (option) Set_shiftKeys_inner ::
  "Set \<Rightarrow> u64 \<Rightarrow> u64 \<Rightarrow> (u64 \<times> u64) result" where
  "Set_shiftKeys_inner m last' pos =
     (if in_range64 pos (s_data m) then
        (let k = s_data m ! nat (sint pos) in
         if k = FREE_KEY then Some (Inr (pos, k))
         else let slot = phiMix k AND s_mask m in
           if (if sint last' \<le> sint pos
               then sint slot \<le> sint last' \<or> sint pos < sint slot
               else sint slot \<le> sint last' \<and> sint pos < sint slot)
           then Some (Inr (pos, k))
           else Set_shiftKeys_inner m last' ((pos + 1) AND s_mask2 m))
      else Some (Inl index_out_of_range))"

partial_function (option) Set_shiftKeys :: "Set \<Rightarrow> u64 \<Rightarrow> (Set \<times> u64) result" where
  "Set_shiftKeys m pos =
     (let last' = pos in
      case Set_shiftKeys_inner m last' ((last' + 1) AND s_mask2 m) of
        None \<Rightarrow> None
      | Some (Inl e) \<Rightarrow> Some (Inl e)
      | Some (Inr (pos, k)) \<Rightarrow>
          if in_range64 last' (s_data m) then
            (if k = FREE_KEY
             then Some (Inr (m\<lparr>s_data := (s_data m)[nat (sint last') := FREE_KEY]\<rparr>, last'))
             else Set_shiftKeys (m\<lparr>s_data := (s_data m)[nat (sint last') := k]\<rparr>) pos)
          else Some (Inl index_out_of_range))"

partial_function (option) Set_Del_probe :: "Set \<Rightarrow> u64 \<Rightarrow> u64 \<Rightarrow> Set result" where
  "Set_Del_probe m key ptr =
     (if unat ptr < length (s_data m) then
        (let k = s_data m ! unat ptr in
         if k = key then
           (case Set_shiftKeys m ptr of
              None \<Rightarrow> None
            | Some (Inl e) \<Rightarrow> Some (Inl e)
            | Some (Inr (m, r)) \<Rightarrow> Some (Inr (m\<lparr>s_size := s_size m - 1\<rparr>)))
         else if k = FREE_KEY then Some (Inr m)
         else Set_Del_probe m key ((ptr + 1) AND s_mask2 m))
      else Some (Inl index_out_of_range))"

text \<open>
  \<^verbatim>\<open>Del\<close> of the free key clears the flag and decrements the size without looking at
  the flag (part_004, lines 1281-1285).
\<close>

definition Set_Del :: "Set \<Rightarrow> u64 \<Rightarrow> Set result" where
  "Set_Del m key =
     (if key = FREE_KEY then
        Some (Inr (m\<lparr>s_hasFreeKey := False, s_size := s_size m - 1\<rparr>))
      else Set_Del_probe m key (phiMix key AND s_mask m))"

definition Set_Size :: "Set \<Rightarrow> int" where
  "Set_Size m = s_size m"

text \<open>\<^verbatim>\<open>Iterate\<close> calls \<open>fn\<close> on the free key if it is present, then on every key of the array in order.\<close>

definition Set_keys :: "Set \<Rightarrow> u64 list" where
  "Set_keys m = (if s_hasFreeKey m then [FREE_KEY] else []) @ filter (\<lambda>k. k \<noteq> FREE_KEY) (s_data m)"

definition Set_Iterate :: "Set \<Rightarrow> (u64 \<Rightarrow> 'a \<Rightarrow> 'a) \<Rightarrow> 'a \<Rightarrow> 'a" where
  "Set_Iterate m fn st = fold fn (Set_keys m) st"

subsection \<open>The containers as Extract and Stats create them\<close>

text \<open>
  \<^verbatim>\<open>NewUint64Map(8, 0.6)\<close> and \<^verbatim>\<open>NewUint64Set(8, 0.6)\<close>: \<open>arraySize 8 0.6\<close> is 16
  (the next power of two above \<open>\<lceil>8 / 0.6\<rceil> = 14\<close>), the threshold is \<open>\<lfloor>16 * 0.6\<rfloor> = 9\<close>.
\<close>

definition map_8_06 :: Map where
  "map_8_06 = \<lparr>m_data = replicate 32 0, m_fillFactor = 6 / 10, m_threshold = 9, m_size = 0,
               m_mask = 15, m_mask2 = 31, m_hasFreeKey = False, m_freeVal = 0\<rparr>"

definition set_8_06 :: Set where
  "set_8_06 = \<lparr>s_data = replicate 16 0, s_fillFactor = 6 / 10, s_threshold = 9, s_size = 0,
               s_mask = 15, s_mask2 = 15, s_hasFreeKey = False\<rparr>"

section \<open>The table of a Map as a set of entries\<close>

text \<open>
  What the methods of \<^verbatim>\<open>Map\<close> keep true of the array, written down to state what
  \<^verbatim>\<open>Put\<close> and \<^verbatim>\<open>Get\<close> compute. The array holds \<open>Map_cap\<close> slots of two words, a key and
  its value; a key lives at or after its home slot \<open>phiMix(key) & mask\<close>, and the probe
  walks the slots cyclically. \<open>Map_dist m h s\<close> is the number of steps from slot \<open>h\<close> to
  slot \<open>s\<close>.

  \<open>Map_shape\<close>: the array has \<open>2 * 2^e\<close> words and the masks are \<open>2^e - 1\<close> and
  \<open>2^(e+1) - 1\<close>; \<open>e \<le> 62\<close> keeps every index below \<open>2^63\<close>, as a Go slice has it.
  \<open>Map_keys_distinct\<close>: no key is stored twice. \<open>Map_chain\<close>: no free slot lies between
  the home slot of a stored key and the slot that holds it. \<open>Map_count\<close>: the number of
  stored keys other than the free key. \<open>Map_inv\<close> adds what ties the fields together:
  \<^verbatim>\<open>size\<close> counts the stored keys and the free key, \<^verbatim>\<open>threshold\<close> is
  \<open>\<lfloor>capacity * fillFactor\<rfloor>\<close>, at least 2 and not below the number of stored keys, and
  the fill factor lies in \<open>[1/2, 1)\<close> (\<^verbatim>\<open>Extract\<close> uses 0.6).

  \<open>Map_holds m key val\<close>: the map holds the entry \<open>key \<mapsto> val\<close>, in the array or as the
  free key. \<open>Map_same_table\<close>: two maps agree on everything but the contents of the array
  and \<^verbatim>\<open>size\<close>.
\<close>

definition Map_cap :: "Map \<Rightarrow> nat" where
  "Map_cap m = length (m_data m) div 2"

definition Map_key_at :: "Map \<Rightarrow> nat \<Rightarrow> u64" where
  "Map_key_at m i = m_data m ! (2 * i)"

definition Map_val_at :: "Map \<Rightarrow> nat \<Rightarrow> u64" where
  "Map_val_at m i = m_data m ! (2 * i + 1)"

definition Map_home :: "Map \<Rightarrow> u64 \<Rightarrow> nat" where
  "Map_home m key = unat (phiMix key AND m_mask m)"

definition Map_shape :: "Map \<Rightarrow> bool" where
  "Map_shape m =
     (\<exists>e\<in>{1..62}. length (m_data m) = 2 * 2 ^ e \<and> m_mask m = 2 ^ e - 1 \<and>
        m_mask2 m = 2 ^ (e + 1) - 1)"

definition Map_keys_distinct :: "Map \<Rightarrow> bool" where
  "Map_keys_distinct m =
     (\<forall>i\<in>{..<Map_cap m}. \<forall>j\<in>{..<Map_cap m}.
        Map_key_at m i = Map_key_at m j \<and> Map_key_at m i \<noteq> FREE_KEY \<longrightarrow> i = j)"

definition Map_dist :: "Map \<Rightarrow> nat \<Rightarrow> nat \<Rightarrow> nat" where
  "Map_dist m h s = (s + Map_cap m - h) mod Map_cap m"

definition Map_chain :: "Map \<Rightarrow> bool" where
  "Map_chain m =
     (\<forall>i\<in>{..<Map_cap m}. Map_key_at m i \<noteq> FREE_KEY \<longrightarrow>
        (\<forall>d\<in>{..<Map_dist m (Map_home m (Map_key_at m i)) i}.
           Map_key_at m ((Map_home m (Map_key_at m i) + d) mod Map_cap m) \<noteq> FREE_KEY))"

definition Map_count :: "Map \<Rightarrow> nat" where
  "Map_count m = card {i\<in>{..<Map_cap m}. Map_key_at m i \<noteq> FREE_KEY}"

definition Map_inv :: "Map \<Rightarrow> bool" where
  "Map_inv m =
     (Map_shape m \<and> Map_keys_distinct m \<and> Map_chain m \<and>
      m_size m = int (Map_count m) + (if m_hasFreeKey m then 1 else 0) \<and>
      int (Map_count m) \<le> m_threshold m \<and> 2 \<le> m_threshold m \<and>
      m_threshold m = \<lfloor>real (Map_cap m) * m_fillFactor m\<rfloor> \<and>
      1 / 2 \<le> m_fillFactor m \<and> m_fillFactor m < 1)"

definition Map_holds :: "Map \<Rightarrow> u64 \<Rightarrow> u64 \<Rightarrow> bool" where
  "Map_holds m key val =
     (if key = FREE_KEY then m_hasFreeKey m \<and> m_freeVal m = val
      else \<exists>i\<in>{..<Map_cap m}. Map_key_at m i = key \<and> Map_val_at m i = val)"

definition Map_same_table :: "Map \<Rightarrow> Map \<Rightarrow> bool" where
  "Map_same_table m m' =
     (Map_cap m' = Map_cap m \<and> m_threshold m' = m_threshold m \<and>
      m_fillFactor m' = m_fillFactor m \<and> m_hasFreeKey m' = m_hasFreeKey m \<and>
      m_freeVal m' = m_freeVal m)"

section \<open>Extract (the second Extract of part_004, lines 379-664)\<close>

text \<open>
  The state of \<^verbatim>\<open>Extract\<close> is the set of variables its callbacks close over; the fields
  carry the prefix \<open>st_\<close>. \<^verbatim>\<open>geometries[class]\<close> of a class with no entry is the empty
  list. \<open>st_warnings\<close> collects what \<^verbatim>\<open>fmt.Printf\<close> reports: the role and the relation.
  A \<^verbatim>\<open>nil\<close> filter is \<open>None\<close>. \<^verbatim>\<open>Tags.Clone\<close> copies and is the identity on values.
  \<^verbatim>\<open>Parse\<close> calls a callback from its workers, which take the blobs of the file as they
  come: the order of the calls between blobs is not fixed, and the mutexes serialise the
  accesses to the maps. The model runs the calls one after the other, in the order of a
  list; what is proved of a whole pass is proved for every list.
\<close>

record ExtractState =
  st_selectedNodes :: Map
  st_selectedWays :: Map
  st_selectedRelations :: Map
  st_nodes :: "u64 \<rightharpoonup> wayNode"
  st_ways :: "u64 \<rightharpoonup> relationWay"
  st_geometries :: "Class \<Rightarrow> Geometry list"
  st_warnings :: "(string \<times> u64) list"

definition rbind :: "'a result \<Rightarrow> ('a \<Rightarrow> 'b result) \<Rightarrow> 'b result" where
  "rbind r f = (case r of None \<Rightarrow> None | Some (Inl e) \<Rightarrow> Some (Inl e) | Some (Inr a) \<Rightarrow> f a)"

fun Map_Put_all :: "Map \<Rightarrow> u64 list \<Rightarrow> u64 \<Rightarrow> Map result" where
  "Map_Put_all m [] v = Some (Inr m)"
| "Map_Put_all m (id' # ids) v = rbind (Map_Put m id' v) (\<lambda>m'. Map_Put_all m' ids v)"

subsection \<open>Pass 0: relations, when a filter is given (lines 387-417)\<close>

text \<open>The loop over the members: \<open>(nodes, ways)\<close> are the two slices it appends to.\<close>

fun split_members :: "Member list \<Rightarrow> u64 list \<times> u64 list \<Rightarrow> u64 list \<times> u64 list" where
  "split_members [] acc = acc"
| "split_members (member # members) (nodes, ways) =
     split_members members
       (if mb_Type member = WayType then (nodes, ways @ [mb_ID member])
        else if mb_Type member = NodeType then (nodes @ [mb_ID member], ways)
        else (nodes, ways))"

definition relationFunc0 :: "FilterFunc \<Rightarrow> Relation \<Rightarrow> ExtractState \<Rightarrow> ExtractState result" where
  "relationFunc0 filter' relation st =
     (let class = filter' RelationType (r_ID relation) (r_Tags relation) in
      if class \<noteq> 0 then
        (let (nodes, ways) = split_members (r_Members relation) ([], []) in
         rbind (if 0 < length ways \<or> 0 < length nodes
                then Map_Put (st_selectedRelations st) (r_ID relation) (ucast class)
                else Some (Inr (st_selectedRelations st))) (\<lambda>sr.
         rbind (if 0 < length ways then Map_Put_all (st_selectedWays st) ways 0
                else Some (Inr (st_selectedWays st))) (\<lambda>sw.
         rbind (if 0 < length nodes then Map_Put_all (st_selectedNodes st) nodes 0
                else Some (Inr (st_selectedNodes st))) (\<lambda>sn.
         Some (Inr (st\<lparr>st_selectedRelations := sr, st_selectedWays := sw,
                       st_selectedNodes := sn\<rparr>))))))
      else Some (Inr st))"

subsection \<open>Pass 1: ways, when a filter is given (lines 423-439)\<close>

definition wayFunc1 :: "FilterFunc \<Rightarrow> Way \<Rightarrow> ExtractState \<Rightarrow> ExtractState result" where
  "wayFunc1 filter' way st =
     (let class = filter' WayType (w_ID way) (w_Tags way) in
      rbind (if class \<noteq> 0 then Some (Inr True) else Map_Has (st_selectedWays st) (w_ID way))
        (\<lambda>sel.
         if sel then
           rbind (if class \<noteq> 0 then Map_Put (st_selectedWays st) (w_ID way) (ucast class)
                  else Some (Inr (st_selectedWays st))) (\<lambda>sw.
           rbind (Map_Put_all (st_selectedNodes st) (w_Refs way) 0) (\<lambda>sn.
           Some (Inr (st\<lparr>st_selectedWays := sw, st_selectedNodes := sn\<rparr>))))
         else Some (Inr st)))"

subsection \<open>Pass 2: nodes (lines 448-474)\<close>

definition nodeFunc ::
  "Bounds \<Rightarrow> FilterFunc option \<Rightarrow> Node \<Rightarrow> ExtractState \<Rightarrow> ExtractState result" where
  "nodeFunc bounds filter' node st =
     (let class = (case filter' of None \<Rightarrow> 0
                   | Some f \<Rightarrow> f NodeType (n_ID node) (n_Tags node));
          outcode = cohenSutherlandOutcode bounds \<lparr>X = n_Lon node, Y = n_Lat node\<rparr>
      in
      rbind (if filter' = None then Some (Inr True)
             else Map_Has (st_selectedNodes st) (n_ID node)) (\<lambda>keep.
      let st = (if keep
                then st\<lparr>st_nodes := (st_nodes st)(n_ID node \<mapsto>
                          \<lparr>wn_Coord = \<lparr>X = n_Lon node, Y = n_Lat node\<rparr>,
                           wn_Class = class, wn_Outcode = outcode\<rparr>)\<rparr>
                else st)
      in
      if (filter' = None \<or> class \<noteq> 0) \<and> outcode = 0 then
        Some (Inr (st\<lparr>st_geometries := (st_geometries st)(class :=
                 st_geometries st class @
                   [\<lparr>g_Type = NodeType, g_ID = n_ID node,
                     g_Points = [\<lparr>X = n_Lon node, Y = n_Lat node\<rparr>],
                     g_LineStrings = [], g_Polygons = [], g_Tags = n_Tags node\<rparr>])\<rparr>))
      else Some (Inr st)))"

subsection \<open>Pass 3: ways (lines 482-579)\<close>

text \<open>
  One step of the loop over \<^verbatim>\<open>way.Refs\<close>; the loop state is \<open>(coords, prevCoord,
  prevOutcode)\<close>. In the corner branch the source overwrites \<open>coord\<close> with the corner,
  and \<open>prevCoord\<close> becomes that corner.
\<close>

definition clipStep ::
  "Bounds \<Rightarrow> (u64 \<rightharpoonup> wayNode) \<Rightarrow> Coord list \<times> Coord \<times> byte \<Rightarrow> u64
     \<Rightarrow> Coord list \<times> Coord \<times> byte" where
  "clipStep bounds nodes acc ref =
     (let (coords, prevCoord, prevOutcode) = acc in
      case nodes ref of
        None \<Rightarrow> acc
      | Some node \<Rightarrow>
          (let coord = wn_Coord node; outcode = wn_Outcode node in
           if outcode = 0 then
             (let coords = (if prevOutcode \<noteq> 0 \<and> prevOutcode \<noteq> 15
                            then coords @ [clipCoord bounds coord prevCoord prevOutcode]
                            else coords)
              in (coords @ [coord], coord, outcode))
           else if prevOutcode = 0 then
             (coords @ [clipCoord bounds prevCoord coord outcode], coord, outcode)
           else if outcode \<noteq> prevOutcode then
             (let (corner, coord) =
                    (if outcode = 5 then (True, fst bounds)
                     else if outcode = 9 then (True, \<lparr>X = X (fst bounds), Y = Y (snd bounds)\<rparr>)
                     else if outcode = 6 then (True, \<lparr>X = X (snd bounds), Y = Y (fst bounds)\<rparr>)
                     else if outcode = 10 then (True, snd bounds)
                     else (False, coord));
                  coords =
                    (if corner \<and> (length coords = 0 \<or> last coords \<noteq> coord) then
                       (if 1 < length coords \<and> coords ! (length coords - 2) = coord
                        then butlast coords else coords @ [coord])
                     else coords)
              in (coords, coord, outcode))
           else (coords, coord, outcode)))"

definition clipWay :: "Bounds \<Rightarrow> (u64 \<rightharpoonup> wayNode) \<Rightarrow> u64 list \<Rightarrow> Coord list" where
  "clipWay bounds nodes refs = fst (foldl (clipStep bounds nodes) ([], \<lparr>X = 0, Y = 0\<rparr>, 15) refs)"

text \<open>Lines 544-549; \<open>[]\<close> is \<^verbatim>\<open>coords = nil\<close>.\<close>

definition postClip :: "bool \<Rightarrow> Coord list \<Rightarrow> Coord list" where
  "postClip closed' coords =
     (if (closed' \<and> length coords < 3) \<or> (\<not> closed' \<and> length coords < 2) then []
      else if closed' \<and> coords ! 0 \<noteq> last coords then coords @ [coords ! 0]
      else coords)"

text \<open>
  Lines 551-569. For a closed way with area tags the source calls
  \<^verbatim>\<open>reverseOrientation(coords)\<close> as a statement when \<^verbatim>\<open>!isCCW(coords)\<close>; the call
  returns a new slice, which is dropped (\<open>reversed\<close> below is not used), and the polygon
  is built from \<open>coords\<close>.
\<close>

definition wayGeometry :: "Way \<Rightarrow> bool \<Rightarrow> Coord list \<Rightarrow> Geometry" where
  "wayGeometry way closed' coords =
     (let geom = \<lparr>g_Type = WayType, g_ID = w_ID way, g_Points = [], g_LineStrings = [],
                  g_Polygons = [], g_Tags = w_Tags way\<rparr>
      in if closed' \<and> IsArea (w_Tags way) then
           (let reversed = (if \<not> isCCW coords then reverseOrientation coords else coords)
            in geom\<lparr>g_Polygons := [\<lparr>p_Coords = coords, p_Fill = True\<rparr>]\<rparr>)
         else geom\<lparr>g_LineStrings := [coords]\<rparr>)"

definition wayFunc ::
  "Bounds \<Rightarrow> FilterFunc option \<Rightarrow> Way \<Rightarrow> ExtractState \<Rightarrow> ExtractState result" where
  "wayFunc bounds filter' way st =
     rbind (if filter' = None then Some (Inr (0, True))
            else Map_Get (st_selectedWays st) (w_ID way)) (\<lambda>(wayItem, selected).
     let class = (ucast wayItem :: Class) in
     if selected \<and> 0 < length (w_Refs way) then
       (let coords = clipWay bounds (st_nodes st) (w_Refs way);
            closed' = (w_Refs way ! 0 = last (w_Refs way));
            coords = postClip closed' coords;
            st = (if (filter' = None \<or> class \<noteq> 0) \<and> coords \<noteq> [] then
                    st\<lparr>st_geometries := (st_geometries st)(class :=
                         st_geometries st class @ [wayGeometry way closed' coords])\<rparr>
                  else st)
        in Some (Inr (st\<lparr>st_ways := (st_ways st)(w_ID way \<mapsto>
                        \<lparr>rw_Coords = coords, rw_First = w_Refs way ! 0,
                         rw_Last = last (w_Refs way)\<rparr>)\<rparr>)))
     else Some (Inr st))"

subsection \<open>Pass 4: relations (lines 587-658)\<close>

text \<open>
  \<^verbatim>\<open>relationWayRoles\<close> is a Go map from role to the ways of that role; Go ranges over it
  in no fixed order. The model keeps the roles in the order of their first member.
\<close>

fun add_role ::
  "string \<Rightarrow> relationWay \<Rightarrow> (string \<times> relationWay list) list \<Rightarrow> (string \<times> relationWay list) list" where
  "add_role role way [] = [(role, [way])]"
| "add_role role way ((r, ws) # rest) =
     (if r = role then (r, ws @ [way]) # rest else (r, ws) # add_role role way rest)"

fun group_members ::
  "(u64 \<rightharpoonup> wayNode) \<Rightarrow> (u64 \<rightharpoonup> relationWay) \<Rightarrow> Member list
     \<Rightarrow> (string \<times> relationWay list) list \<times> Coord list
     \<Rightarrow> (string \<times> relationWay list) list \<times> Coord list" where
  "group_members nodes ways [] acc = acc"
| "group_members nodes ways (member # members) (roles, points) =
     group_members nodes ways members
       (if mb_Type member = WayType then
          (case ways (mb_ID member) of
             Some way \<Rightarrow> (add_role (mb_Role member) way roles, points)
           | None \<Rightarrow> (roles, points))
        else if mb_Type member = NodeType then
          (case nodes (mb_ID member) of
             Some node \<Rightarrow>
               (if wn_Outcode node = 0 then (roles, points @ [wn_Coord node])
                else (roles, points))
           | None \<Rightarrow> (roles, points))
        else (roles, points))"

text \<open>Lines 617-637: what one contour of a role adds to the geometry.\<close>

definition emitContour ::
  "string \<Rightarrow> u64 \<Rightarrow> Geometry \<times> (string \<times> u64) list \<Rightarrow> Coord list
     \<Rightarrow> Geometry \<times> (string \<times> u64) list" where
  "emitContour role rid acc coords =
     (let (geom, warns) = acc in
      if 1 < length coords then
        (if 2 < length coords \<and> coords ! 0 = last coords then
           (let fill = (role \<noteq> ''inner'');
                coords = (if fill \<noteq> isCCW coords then reverseOrientation coords else coords)
            in (geom\<lparr>g_Polygons := g_Polygons geom @ [\<lparr>p_Coords = coords, p_Fill = fill\<rparr>]\<rparr>,
                warns))
         else
           (geom\<lparr>g_LineStrings := g_LineStrings geom @ [coords]\<rparr>,
            if role = ''outer'' \<or> role = ''inner'' then warns @ [(role, rid)] else warns))
      else acc)"

fun emitRoles ::
  "u64 \<Rightarrow> (string \<times> relationWay list) list \<Rightarrow> Geometry \<times> (string \<times> u64) list
     \<Rightarrow> (Geometry \<times> (string \<times> u64) list) result" where
  "emitRoles rid [] acc = Some (Inr acc)"
| "emitRoles rid ((role, relationWays) # rest) acc =
     (case connectRelationWays relationWays of
        None \<Rightarrow> None
      | Some contours \<Rightarrow> emitRoles rid rest (foldl (emitContour role rid) acc contours))"

text \<open>
  \<^verbatim>\<open>slices.SortFunc\<close> with filled rings before holes; it does not promise an order among
  equal elements, the model keeps theirs.
\<close>

definition sortPolygons :: "Polygon list \<Rightarrow> Polygon list" where
  "sortPolygons ps = filter p_Fill ps @ filter (\<lambda>p. \<not> p_Fill p) ps"

definition relationFunc ::
  "FilterFunc option \<Rightarrow> Relation \<Rightarrow> ExtractState \<Rightarrow> ExtractState result" where
  "relationFunc filter' relation st =
     rbind (if filter' = None then Some (Inr (0, True))
            else Map_Get (st_selectedRelations st) (r_ID relation)) (\<lambda>(relationItem, found).
     let class = (ucast relationItem :: Class) in
     if (filter' = None \<or> class \<noteq> 0) \<and> 0 < length (r_Members relation) then
       (let geom = \<lparr>g_Type = RelationType, g_ID = r_ID relation, g_Points = [],
                    g_LineStrings = [], g_Polygons = [], g_Tags = r_Tags relation\<rparr>;
            (roles, points) =
               group_members (st_nodes st) (st_ways st) (r_Members relation) ([], []);
            geom = geom\<lparr>g_Points := points\<rparr>
        in rbind (emitRoles (r_ID relation) roles (geom, st_warnings st)) (\<lambda>(geom, warns).
           let st = st\<lparr>st_warnings := warns\<rparr> in
           if 0 < length (g_Points geom) \<or> 0 < length (g_LineStrings geom)
              \<or> 0 < length (g_Polygons geom) then
             Some (Inr (st\<lparr>st_geometries := (st_geometries st)(class :=
                      st_geometries st class
                        @ [geom\<lparr>g_Polygons := sortPolygons (g_Polygons geom)\<rparr>])\<rparr>))
           else Some (Inr st)))
     else Some (Inr st))"

subsection \<open>The passes in order\<close>

text \<open>
  A well-formed file is the list of its nodes, ways and relations. \<^verbatim>\<open>Parse\<close> with one
  callback hands every entity of that kind to the callback; \<open>run_pass\<close> does so in the
  order of the list, one call after the other.
\<close>

record OsmFile =
  f_nodes :: "Node list"
  f_ways :: "Way list"
  f_relations :: "Relation list"

fun run_pass ::
  "('e \<Rightarrow> ExtractState \<Rightarrow> ExtractState result) \<Rightarrow> 'e list \<Rightarrow> ExtractState
     \<Rightarrow> ExtractState result" where
  "run_pass cb [] st = Some (Inr st)"
| "run_pass cb (e # es) st = rbind (cb e st) (run_pass cb es)"

definition Extract ::
  "Bounds \<Rightarrow> FilterFunc option \<Rightarrow> OsmFile \<Rightarrow> ((Class \<Rightarrow> Geometry list) \<times> (string \<times> u64) list) result" where
  "Extract bounds filter' file =
     (case (NewUint64Map 8 (6 / 10), NewUint64Map 8 (6 / 10), NewUint64Map 8 (6 / 10)) of
        (Inr selectedNodes, Inr selectedWays, Inr selectedRelations) \<Rightarrow>
          (let st = \<lparr>st_selectedNodes = selectedNodes, st_selectedWays = selectedWays,
                     st_selectedRelations = selectedRelations, st_nodes = Map.empty,
                     st_ways = Map.empty, st_geometries = (\<lambda>c. []), st_warnings = []\<rparr>
           in
           rbind (case filter' of
                    None \<Rightarrow> Some (Inr st)
                  | Some f \<Rightarrow>
                      rbind (run_pass (relationFunc0 f) (f_relations file) st)
                        (run_pass (wayFunc1 f) (f_ways file))) (\<lambda>st.
           rbind (run_pass (nodeFunc bounds filter') (f_nodes file) st) (\<lambda>st.
           rbind (if filter' = None \<or> 0 < Map_Size (st_selectedWays st)
                  then run_pass (wayFunc bounds filter') (f_ways file) st
                  else Some (Inr st)) (\<lambda>st.
           rbind (if filter' = None \<or> 0 < Map_Size (st_selectedRelations st)
                  then run_pass (relationFunc filter') (f_relations file) st
                  else Some (Inr st)) (\<lambda>st.
           Some (Inr (st_geometries st, st_warnings st)))))))
      | _ \<Rightarrow> Some (Inl (Panic ''NewUint64Map'')))"

section \<open>Stats (part_002, lines 540-871)\<close>

text \<open>
  \<^verbatim>\<open>Hist\<close>. The reservoir replaces a sample at an index drawn from the histogram's own
  random generator. The generator is a parameter of the model: \<open>h_rng\<close> is the stream of
  its outputs and \<open>h_draws\<close> counts the draws; \<^verbatim>\<open>Uint64N(n)\<close> is the next output reduced
  below \<open>n\<close>. \<open>h_cap\<close> is \<^verbatim>\<open>cap(h.samples)\<close>. The exported \<^verbatim>\<open>Boundaries\<close> and
  \<^verbatim>\<open>Buckets\<close> are never written by \<^verbatim>\<open>Stats\<close> and are left out.
\<close>

record Hist =
  h_min :: int
  h_max :: int
  h_count :: u64
  h_samples :: "int list"
  h_all :: "int list"
  h_cap :: nat
  h_rng :: "nat \<Rightarrow> nat"
  h_draws :: nat

definition NewHist :: "(nat \<Rightarrow> nat) \<Rightarrow> nat \<Rightarrow> Hist" where
  "NewHist rng maxSamples =
     \<lparr>h_min = 0, h_max = 0, h_count = 0, h_samples = [], h_all = [], h_cap = maxSamples,
      h_rng = rng, h_draws = 0\<rparr>"

definition Hist_Add :: "Hist \<Rightarrow> int \<Rightarrow> Hist" where
  "Hist_Add h v =
     (let h = (if length (h_samples h) = 0 then h\<lparr>h_min := v, h_max := v\<rparr>
               else if h_max h < v then h\<lparr>h_max := v\<rparr>
               else if v < h_min h then h\<lparr>h_min := v\<rparr>
               else h);
          h = h\<lparr>h_count := h_count h + 1\<rparr>;
          h = h\<lparr>h_all := h_all h @ [v]\<rparr>
      in if length (h_samples h) < h_cap h then h\<lparr>h_samples := h_samples h @ [v]\<rparr>
         else (let i = h_rng h (h_draws h) mod unat (h_count h);
                   h = h\<lparr>h_draws := h_draws h + 1\<rparr>
               in if i < length (h_samples h) then h\<lparr>h_samples := (h_samples h)[i := v]\<rparr>
                  else h))"

text \<open>
  The \<^verbatim>\<open>Stats\<close> struct (fields as in the source) and, in \<open>StatsState\<close>, the local
  variables of \<^verbatim>\<open>Parser.Stats\<close> that its callbacks share (prefix \<open>ss_\<close>). A Go map
  \<^verbatim>\<open>map[uint64][]uint64\<close> read with \<^verbatim>\<open>parents[id]\<close> gives the empty slice for an absent
  key: \<open>ss_relationParents\<close> is a function into lists.
\<close>

record Stats =
  NumNodes :: u64
  NumWays :: u64
  NumRelations :: u64
  NodeIDRange :: "u64 \<times> u64"
  WayIDRange :: "u64 \<times> u64"
  RelationIDRange :: "u64 \<times> u64"
  Bounds :: Bounds
  WayNodes :: u64
  RelationNodes :: u64
  DoublyReferencedNodes :: u64
  RelationWays :: u64
  MissingWayNodes :: u64
  HistWayNodes :: Hist
  RelationRelations :: u64
  MissingRelations :: u64
  MissingRelationNodes :: u64
  MissingRelationWays :: u64
  MissingRelationRelations :: u64
  HistRelationNodes :: Hist
  HistRelationWays :: Hist
  HistRelationRelations :: Hist
  NumRelationDepths :: "u64 list"
  NumRecursiveRelations :: u64

record StatsState =
  ss_stats :: Stats
  ss_nodeIDs :: Set
  ss_wayIDs :: Set
  ss_relationIDs :: Set
  ss_wayNodeIDs :: Set
  ss_relationNodeIDs :: Set
  ss_relationWayIDs :: Set
  ss_relationRelationIDs :: Set
  ss_relationParents :: "u64 \<Rightarrow> u64 list"

definition MaxRelationDepth :: int where
  "MaxRelationDepth = 16"

definition MaxInt :: int where
  "MaxInt = 2 ^ 63 - 1"

fun Set_Add_all :: "Set \<Rightarrow> u64 list \<Rightarrow> Set result" where
  "Set_Add_all m [] = Some (Inr m)"
| "Set_Add_all m (id' # ids) = rbind (Set_Add m id') (\<lambda>m'. Set_Add_all m' ids)"

definition stats_nodeFunc :: "Node \<Rightarrow> StatsState \<Rightarrow> StatsState result" where
  "stats_nodeFunc node st =
     (let stats = ss_stats st;
          stats = stats\<lparr>NumNodes := NumNodes stats + 1\<rparr>
      in rbind (Set_Add (ss_nodeIDs st) (n_ID node)) (\<lambda>nodeIDs.
         let c = \<lparr>X = n_Lon node, Y = n_Lat node\<rparr>;
             stats =
               (if fst (NodeIDRange stats) = 0 then
                  stats\<lparr>NodeIDRange := (n_ID node, n_ID node), Bounds := (c, c)\<rparr>
                else
                  (let r = NodeIDRange stats;
                       r = (if n_ID node < fst r then (n_ID node, snd r)
                            else if snd r < n_ID node then (fst r, n_ID node) else r);
                       b = Bounds stats;
                       b = (if n_Lon node < X (fst b) then ((fst b)\<lparr>X := n_Lon node\<rparr>, snd b)
                            else if X (snd b) < n_Lon node then (fst b, (snd b)\<lparr>X := n_Lon node\<rparr>)
                            else b);
                       b = (if n_Lat node < Y (fst b) then ((fst b)\<lparr>Y := n_Lat node\<rparr>, snd b)
                            else if Y (snd b) < n_Lat node then (fst b, (snd b)\<lparr>Y := n_Lat node\<rparr>)
                            else b)
                   in stats\<lparr>NodeIDRange := r, Bounds := b\<rparr>))
         in Some (Inr (st\<lparr>ss_stats := stats, ss_nodeIDs := nodeIDs\<rparr>))))"

definition stats_wayFunc :: "Way \<Rightarrow> StatsState \<Rightarrow> StatsState result" where
  "stats_wayFunc way st =
     (let stats = ss_stats st;
          stats = stats\<lparr>NumWays := NumWays stats + 1\<rparr>
      in rbind (Set_Add (ss_wayIDs st) (w_ID way)) (\<lambda>wayIDs.
         let stats =
               (if fst (WayIDRange stats) = 0 then stats\<lparr>WayIDRange := (w_ID way, w_ID way)\<rparr>
                else
                  (let r = WayIDRange stats;
                       r = (if w_ID way < fst r then (w_ID way, snd r)
                            else if snd r < w_ID way then (fst r, w_ID way) else r)
                   in stats\<lparr>WayIDRange := r\<rparr>));
             stats = stats\<lparr>HistWayNodes := Hist_Add (HistWayNodes stats) (int (length (w_Refs way)))\<rparr>
         in rbind (Set_Add_all (ss_wayNodeIDs st) (w_Refs way)) (\<lambda>wayNodeIDs.
            Some (Inr (st\<lparr>ss_stats := stats, ss_wayIDs := wayIDs,
                          ss_wayNodeIDs := wayNodeIDs\<rparr>)))))"

text \<open>
  The loop over the members of a relation: the three slices \<^verbatim>\<open>nodeIDs\<close>, \<^verbatim>\<open>wayIDs\<close>,
  \<^verbatim>\<open>relationIDs\<close> and the map \<^verbatim>\<open>relationParents\<close>.
\<close>

fun stats_members ::
  "u64 \<Rightarrow> Member list \<Rightarrow> u64 list \<times> u64 list \<times> u64 list \<times> (u64 \<Rightarrow> u64 list)
     \<Rightarrow> u64 list \<times> u64 list \<times> u64 list \<times> (u64 \<Rightarrow> u64 list)" where
  "stats_members rid [] acc = acc"
| "stats_members rid (member # members) (nodeIDs, wayIDs, relationIDs, parents) =
     stats_members rid members
       (if mb_Type member = NodeType then (nodeIDs @ [mb_ID member], wayIDs, relationIDs, parents)
        else if mb_Type member = WayType
          then (nodeIDs, wayIDs @ [mb_ID member], relationIDs, parents)
        else if mb_Type member = RelationType
          then (nodeIDs, wayIDs, relationIDs @ [mb_ID member],
                parents(mb_ID member := parents (mb_ID member) @ [rid]))
        else (nodeIDs, wayIDs, relationIDs, parents))"

definition stats_relationFunc :: "Relation \<Rightarrow> StatsState \<Rightarrow> StatsState result" where
  "stats_relationFunc relation st =
     (let stats = ss_stats st;
          stats = stats\<lparr>NumRelations := NumRelations stats + 1\<rparr>
      in rbind (Set_Add (ss_relationIDs st) (r_ID relation)) (\<lambda>relationIDs'.
         let stats =
               (if fst (RelationIDRange stats) = 0
                then stats\<lparr>RelationIDRange := (r_ID relation, r_ID relation)\<rparr>
                else
                  (let r = RelationIDRange stats;
                       r = (if r_ID relation < fst r then (r_ID relation, snd r)
                            else if snd r < r_ID relation then (fst r, r_ID relation) else r)
                   in stats\<lparr>RelationIDRange := r\<rparr>));
             (nodeIDs, wayIDs, relationIDs, parents) =
               stats_members (r_ID relation) (r_Members relation)
                 ([], [], [], ss_relationParents st);
             stats = stats\<lparr>HistRelationNodes :=
                        Hist_Add (HistRelationNodes stats) (int (length nodeIDs))\<rparr>;
             stats = stats\<lparr>HistRelationWays :=
                        Hist_Add (HistRelationWays stats) (int (length wayIDs))\<rparr>;
             stats = stats\<lparr>HistRelationRelations :=
                        Hist_Add (HistRelationRelations stats) (int (length relationIDs))\<rparr>
         in rbind (if 0 < length nodeIDs then Set_Add_all (ss_relationNodeIDs st) nodeIDs
                   else Some (Inr (ss_relationNodeIDs st))) (\<lambda>relationNodeIDs.
            rbind (if 0 < length wayIDs then Set_Add_all (ss_relationWayIDs st) wayIDs
                   else Some (Inr (ss_relationWayIDs st))) (\<lambda>relationWayIDs.
            rbind (if 0 < length relationIDs
                   then Set_Add_all (ss_relationRelationIDs st) relationIDs
                   else Some (Inr (ss_relationRelationIDs st))) (\<lambda>relationRelationIDs.
            Some (Inr (st\<lparr>ss_stats := stats, ss_relationIDs := relationIDs',
                          ss_relationNodeIDs := relationNodeIDs,
                          ss_relationWayIDs := relationWayIDs,
                          ss_relationRelationIDs := relationRelationIDs,
                          ss_relationParents := parents\<rparr>)))))))"

text \<open>\<^verbatim>\<open>relationDepth\<close>: the recursion stops at \<^verbatim>\<open>MaxRelationDepth\<close>.\<close>

function relationDepth :: "u64 \<Rightarrow> (u64 \<Rightarrow> u64 list) \<Rightarrow> int \<Rightarrow> int" where
  "relationDepth id' parents Depth =
     (if MaxRelationDepth \<le> Depth then MaxInt
      else foldl (\<lambda>depth p. let d = relationDepth p parents (Depth + 1)
                             in if depth < d then d else depth)
             Depth (parents id'))"
  by pat_completeness auto
termination
  by (relation "measure (\<lambda>(id', parents, Depth). nat (MaxRelationDepth - Depth))") auto

declare relationDepth.simps [simp del]

text \<open>
  The four \<^verbatim>\<open>Iterate\<close> calls after the parse. Each body reads other sets with
  \<^verbatim>\<open>Has\<close>; \<open>iterate_result\<close> runs such a body over the keys of a set.
\<close>

fun iterate_result :: "(u64 \<Rightarrow> 'a \<Rightarrow> 'a result) \<Rightarrow> u64 list \<Rightarrow> 'a \<Rightarrow> 'a result" where
  "iterate_result fn [] st = Some (Inr st)"
| "iterate_result fn (k # ks) st = rbind (fn k st) (iterate_result fn ks)"

definition count_depth :: "u64 list \<Rightarrow> int \<Rightarrow> u64 list" where
  "count_depth depths depth =
     (let depths = depths @ replicate (nat (depth + 1) - length depths) 0
      in depths[nat depth := depths ! nat depth + 1])"

definition stats_finish :: "StatsState \<Rightarrow> Stats result" where
  "stats_finish st =
     rbind (iterate_result
              (\<lambda>id' stats. rbind (Set_Has (ss_nodeIDs st) id') (\<lambda>has.
                 Some (Inr (if \<not> has then stats\<lparr>MissingWayNodes := MissingWayNodes stats + 1\<rparr>
                            else stats))))
              (Set_keys (ss_wayNodeIDs st)) (ss_stats st)) (\<lambda>stats.
     rbind (iterate_result
              (\<lambda>id' stats. rbind (Set_Has (ss_nodeIDs st) id') (\<lambda>has.
                 if \<not> has
                 then Some (Inr (stats\<lparr>MissingRelationNodes := MissingRelationNodes stats + 1\<rparr>))
                 else rbind (Set_Has (ss_wayNodeIDs st) id') (\<lambda>has2.
                   Some (Inr (if has2
                      then stats\<lparr>DoublyReferencedNodes := DoublyReferencedNodes stats + 1\<rparr>
                      else stats)))))
              (Set_keys (ss_relationNodeIDs st)) stats) (\<lambda>stats.
     rbind (iterate_result
              (\<lambda>id' stats. rbind (Set_Has (ss_wayIDs st) id') (\<lambda>has.
                 Some (Inr (if \<not> has
                    then stats\<lparr>MissingRelationWays := MissingRelationWays stats + 1\<rparr>
                    else stats))))
              (Set_keys (ss_relationWayIDs st)) stats) (\<lambda>stats.
     rbind (iterate_result
              (\<lambda>id' stats. rbind (Set_Has (ss_relationIDs st) id') (\<lambda>has.
                 if \<not> has
                 then Some (Inr (stats\<lparr>MissingRelationRelations :=
                                         MissingRelationRelations stats + 1\<rparr>))
                 else (let depth = relationDepth id' (ss_relationParents st) 0 in
                       if depth = MaxInt
                       then Some (Inr (stats\<lparr>NumRecursiveRelations :=
                                               NumRecursiveRelations stats + 1\<rparr>))
                       else Some (Inr (stats\<lparr>NumRelationDepths :=
                                               count_depth (NumRelationDepths stats) depth\<rparr>)))))
              (Set_keys (ss_relationRelationIDs st)) stats) (\<lambda>stats.
     let stats = stats\<lparr>WayNodes := word_of_int (Set_Size (ss_wayNodeIDs st)),
                        RelationNodes := word_of_int (Set_Size (ss_relationNodeIDs st)),
                        RelationWays := word_of_int (Set_Size (ss_relationWayIDs st)),
                        RelationRelations := word_of_int (Set_Size (ss_relationRelationIDs st))\<rparr>
     in if 0 < length (NumRelationDepths stats) then
          Some (Inr (stats\<lparr>NumRelationDepths := (NumRelationDepths stats)[0 :=
                   NumRelations stats
                     - (word_of_int (Set_Size (ss_relationRelationIDs st))
                        - MissingRelationRelations stats)]\<rparr>))
        else Some (Inl index_out_of_range)))))"

text \<open>
  \<^verbatim>\<open>Parser.Stats\<close> on a well-formed file: \<^verbatim>\<open>Parse\<close> returns no error and has called
  the three callbacks on every entity. The assignment
  \<^verbatim>\<open>stats.NumRelationDepths[0] = ...\<close> of line 856 indexes the slice whatever its length.
\<close>

fun stats_pass ::
  "('e \<Rightarrow> StatsState \<Rightarrow> StatsState result) \<Rightarrow> 'e list \<Rightarrow> StatsState \<Rightarrow> StatsState result" where
  "stats_pass cb [] st = Some (Inr st)"
| "stats_pass cb (e # es) st = rbind (cb e st) (stats_pass cb es)"

definition stats_init :: "(nat \<Rightarrow> nat) \<Rightarrow> StatsState" where
  "stats_init rng =
     \<lparr>ss_stats =
        \<lparr>NumNodes = 0, NumWays = 0, NumRelations = 0, NodeIDRange = (0, 0),
         WayIDRange = (0, 0), RelationIDRange = (0, 0),
         Bounds = (\<lparr>X = 0, Y = 0\<rparr>, \<lparr>X = 0, Y = 0\<rparr>),
         WayNodes = 0, RelationNodes = 0, DoublyReferencedNodes = 0, RelationWays = 0,
         MissingWayNodes = 0, HistWayNodes = NewHist rng 2048, RelationRelations = 0,
         MissingRelations = 0, MissingRelationNodes = 0, MissingRelationWays = 0,
         MissingRelationRelations = 0, HistRelationNodes = NewHist rng 2048,
         HistRelationWays = NewHist rng 2048, HistRelationRelations = NewHist rng 2048,
         NumRelationDepths = [], NumRecursiveRelations = 0\<rparr>,
      ss_nodeIDs = set_8_06, ss_wayIDs = set_8_06, ss_relationIDs = set_8_06,
      ss_wayNodeIDs = set_8_06, ss_relationNodeIDs = set_8_06, ss_relationWayIDs = set_8_06,
      ss_relationRelationIDs = set_8_06, ss_relationParents = (\<lambda>id'. [])\<rparr>"

definition Parser_Stats :: "(nat \<Rightarrow> nat) \<Rightarrow> OsmFile \<Rightarrow> Stats result" where
  "Parser_Stats rng file =
     rbind (stats_pass stats_nodeFunc (f_nodes file) (stats_init rng)) (\<lambda>st.
     rbind (stats_pass stats_wayFunc (f_ways file) st) (\<lambda>st.
     rbind (stats_pass stats_relationFunc (f_relations file) st) stats_finish))"

text \<open>
  \<open>no_depths\<close>: no relation id has been recorded as a member of a relation, and
  \<^verbatim>\<open>stats.NumRelationDepths\<close> is still the empty slice.
\<close>

definition no_depths :: "StatsState \<Rightarrow> bool" where
  "no_depths st \<longleftrightarrow>
     Set_keys (ss_relationRelationIDs st) = [] \<and> NumRelationDepths (ss_stats st) = []"

section \<open>Parse: the start of a parse (osm/parser.go, lines 1141-1159, 308-312)\<close>

text \<open>
  The reader is an \<^verbatim>\<open>io.ReadSeeker\<close>: its bytes, its current offset, and whether
  \<^verbatim>\<open>Seek\<close> succeeds. \<^verbatim>\<open>io.ReadFull\<close> reads \<open>n\<close> bytes at the offset, or fails with
  \<^verbatim>\<open>io.EOF\<close> when no byte is left and with \<^verbatim>\<open>io.ErrUnexpectedEOF\<close> when fewer than
  \<open>n\<close> are. Only the sequential start of \<^verbatim>\<open>Parse\<close> is modelled, up to the first read of
  the blob loop; \<open>ncpu\<close> is \<^verbatim>\<open>runtime.GOMAXPROCS(0)\<close>.
\<close>

record Reader =
  rd_data :: "byte list"
  rd_offset :: nat
  rd_seekable :: bool

definition Seek_start :: "Reader \<Rightarrow> error + Reader" where
  "Seek_start r = (if rd_seekable r then Inr (r\<lparr>rd_offset := 0\<rparr>) else Inl (Err ''seek''))"

definition ReadFull :: "Reader \<Rightarrow> nat \<Rightarrow> error + (byte list \<times> Reader)" where
  "ReadFull r n =
     (if rd_offset r + n \<le> length (rd_data r)
      then Inr (take n (drop (rd_offset r) (rd_data r)), r\<lparr>rd_offset := rd_offset r + n\<rparr>)
      else if length (rd_data r) \<le> rd_offset r then Inl (Err ''EOF'')
      else Inl (Err ''unexpected EOF''))"

record Parser =
  z_r :: Reader
  z_Workers :: int
  z_pos :: int

text \<open>
  Lines 1142-1159: the worker count, the seek in the \<^verbatim>\<open>else if\<close> branch, \<^verbatim>\<open>z.pos = 0\<close>,
  and \<^verbatim>\<open>make(chan Blob, z.Workers*2)\<close>, which panics on a negative size. The result is
  the parser, \<open>workers\<close> and the capacity of the channel.
\<close>

definition Parse_start :: "int \<Rightarrow> Parser \<Rightarrow> error + (Parser \<times> int \<times> int)" where
  "Parse_start ncpu z =
     (let workers = z_Workers z in
      case (if workers < 1 then Inr (ncpu, z)
            else (case Seek_start (z_r z) of
                    Inl err \<Rightarrow> Inl err
                  | Inr r \<Rightarrow> Inr (workers, z\<lparr>z_r := r\<rparr>))) of
        Inl err \<Rightarrow> Inl err
      | Inr (workers, z) \<Rightarrow>
          (let z = z\<lparr>z_pos := 0\<rparr> in
           if z_Workers z * 2 < 0 then Inl (Panic ''makechan: size out of range'')
           else Inr (z, workers, z_Workers z * 2)))"

text \<open>
  The first statement of \<^verbatim>\<open>z.blob\<close>, called first in the blob loop:
  \<^verbatim>\<open>io.ReadFull(z.r, buf[:4])\<close>. The result is the offset the read starts at and the four
  bytes of the header length; \<^verbatim>\<open>io.EOF\<close> there ends the parse without any callback.
\<close>

definition Parse_first_read :: "int \<Rightarrow> Parser \<Rightarrow> error + (nat \<times> byte list)" where
  "Parse_first_read ncpu z =
     (case Parse_start ncpu z of
        Inl err \<Rightarrow> Inl err
      | Inr (z, workers, cap) \<Rightarrow>
          (case ReadFull (z_r z) 4 of
             Inl err \<Rightarrow> Inl err
           | Inr (buf, r) \<Rightarrow> Inr (rd_offset (z_r z), buf)))"

section \<open>Concrete inputs used below\<close>

text \<open>
  A way pass over three cached nodes: node 1 lies left of the bounds \<open>[(-1,-1), (1,1)]\<close>
  (outcode 1), nodes 2 and 3 lie inside.
\<close>

definition ex_bounds :: Bounds where
  "ex_bounds = (\<lparr>X = - 1, Y = - 1\<rparr>, \<lparr>X = 1, Y = 1\<rparr>)"

definition ex_nodes :: "u64 \<rightharpoonup> wayNode" where
  "ex_nodes =
     [1 \<mapsto> \<lparr>wn_Coord = \<lparr>X = - 2, Y = 0\<rparr>, wn_Class = 0, wn_Outcode = 1\<rparr>,
      2 \<mapsto> \<lparr>wn_Coord = \<lparr>X = 0, Y = 0\<rparr>, wn_Class = 0, wn_Outcode = 0\<rparr>,
      3 \<mapsto> \<lparr>wn_Coord = \<lparr>X = 0, Y = 1 / 2\<rparr>, wn_Class = 0, wn_Outcode = 0\<rparr>]"

text \<open>
  \<open>ex_state\<close> has the three maps as \<^verbatim>\<open>NewUint64Map(8, 0.6)\<close> returns them and nothing
  cached or emitted: the state in which \<^verbatim>\<open>Extract\<close> starts its passes.
\<close>

definition ex_state :: ExtractState where
  "ex_state =
     \<lparr>st_selectedNodes = map_8_06, st_selectedWays = map_8_06, st_selectedRelations = map_8_06,
      st_nodes = Map.empty, st_ways = Map.empty, st_geometries = (\<lambda>c. []), st_warnings = []\<rparr>"

text \<open>
  The file of the specification's scenario 4: a square given clockwise, (0,0), (0,2),
  (2,2), (2,0), (0,0), as the closed way 10 tagged \<open>natural=water\<close>, inside the bounds
  \<open>[(-1,-1), (3,3)]\<close>; no filter.
\<close>

definition cw_bounds :: Bounds where
  "cw_bounds = (\<lparr>X = - 1, Y = - 1\<rparr>, \<lparr>X = 3, Y = 3\<rparr>)"

definition cw_ring :: "Coord list" where
  "cw_ring = [\<lparr>X = 0, Y = 0\<rparr>, \<lparr>X = 0, Y = 2\<rparr>, \<lparr>X = 2, Y = 2\<rparr>, \<lparr>X = 2, Y = 0\<rparr>, \<lparr>X = 0, Y = 0\<rparr>]"

definition cw_way :: Way where
  "cw_way = \<lparr>w_ID = 10, w_Refs = [1, 2, 3, 4, 1], w_Tags = [\<lparr>Key = ''natural'', Val = ''water''\<rparr>]\<rparr>"

definition cw_file :: OsmFile where
  "cw_file =
     \<lparr>f_nodes = [\<lparr>n_ID = 1, n_Lon = 0, n_Lat = 0, n_Tags = []\<rparr>,
                 \<lparr>n_ID = 2, n_Lon = 0, n_Lat = 2, n_Tags = []\<rparr>,
                 \<lparr>n_ID = 3, n_Lon = 2, n_Lat = 2, n_Tags = []\<rparr>,
                 \<lparr>n_ID = 4, n_Lon = 2, n_Lat = 0, n_Tags = []\<rparr>],
      f_ways = [cw_way],
      f_relations = []\<rparr>"

definition cw_nodes :: "u64 \<rightharpoonup> wayNode" where
  "cw_nodes =
     [1 \<mapsto> \<lparr>wn_Coord = \<lparr>X = 0, Y = 0\<rparr>, wn_Class = 0, wn_Outcode = 0\<rparr>,
      2 \<mapsto> \<lparr>wn_Coord = \<lparr>X = 0, Y = 2\<rparr>, wn_Class = 0, wn_Outcode = 0\<rparr>,
      3 \<mapsto> \<lparr>wn_Coord = \<lparr>X = 2, Y = 2\<rparr>, wn_Class = 0, wn_Outcode = 0\<rparr>,
      4 \<mapsto> \<lparr>wn_Coord = \<lparr>X = 2, Y = 0\<rparr>, wn_Class = 0, wn_Outcode = 0\<rparr>]"

definition node_point :: "u64 \<Rightarrow> real \<Rightarrow> real \<Rightarrow> Geometry" where
  "node_point i x y =
     \<lparr>g_Type = NodeType, g_ID = i, g_Points = [\<lparr>X = x, Y = y\<rparr>], g_LineStrings = [],
      g_Polygons = [], g_Tags = []\<rparr>"

definition cw_polygon :: Geometry where
  "cw_polygon =
     \<lparr>g_Type = WayType, g_ID = 10, g_Points = [], g_LineStrings = [],
      g_Polygons = [\<lparr>p_Coords = cw_ring, p_Fill = True\<rparr>],
      g_Tags = [\<lparr>Key = ''natural'', Val = ''water''\<rparr>]\<rparr>"

text \<open>
  A filter that gives every object the class 1, a relation whose only member is another
  relation, and a relation with a way member and a node member.
\<close>

definition all_class_1 :: FilterFunc where
  "all_class_1 t i tags = 1"

definition super_relation :: Relation where
  "super_relation =
     \<lparr>r_ID = 5, r_Members = [\<lparr>mb_ID = 6, mb_Type = RelationType, mb_Role = ''''\<rparr>], r_Tags = []\<rparr>"

definition multipolygon_relation :: Relation where
  "multipolygon_relation =
     \<lparr>r_ID = 7,
      r_Members = [\<lparr>mb_ID = 20, mb_Type = WayType, mb_Role = ''outer''\<rparr>,
                   \<lparr>mb_ID = 30, mb_Type = NodeType, mb_Role = ''label''\<rparr>],
      r_Tags = []\<rparr>"

section \<open>Proofs: varint codec\<close>

lemma varint_loop_0:
  "varint_loop 0 0 b =
     (if length b \<le> 0 then (0, 0)
      else if (ucast (b ! 0) :: u64) < 0x80 then (ucast (b ! 0), 1)
      else varint_loop 1 (ucast (b ! 0) - 0x80) b)"
  by (subst varint_loop.simps) (simp add: Let_def)

lemma varint_loop_1:
  "varint_loop 1 v b =
     (if length b \<le> 1 then (0, 0)
      else if (ucast (b ! 1) :: u64) < 0x80 then (v + push_bit 7 (ucast (b ! 1)), 2)
      else varint_loop 2 (v + push_bit 7 (ucast (b ! 1)) - push_bit 7 0x80) b)"
  by (subst varint_loop.simps) (simp add: Let_def eval_nat_numeral)

lemma varint_loop_2:
  "varint_loop 2 v b =
     (if length b \<le> 2 then (0, 0)
      else if (ucast (b ! 2) :: u64) < 0x80 then (v + push_bit 14 (ucast (b ! 2)), 3)
      else varint_loop 3 (v + push_bit 14 (ucast (b ! 2)) - push_bit 14 0x80) b)"
  by (subst varint_loop.simps) (simp add: Let_def)

lemma varint_loop_3:
  "varint_loop 3 v b =
     (if length b \<le> 3 then (0, 0)
      else if (ucast (b ! 3) :: u64) < 0x80 then (v + push_bit 21 (ucast (b ! 3)), 4)
      else varint_loop 4 (v + push_bit 21 (ucast (b ! 3)) - push_bit 21 0x80) b)"
  by (subst varint_loop.simps) (simp add: Let_def)

lemma varint_loop_4:
  "varint_loop 4 v b =
     (if length b \<le> 4 then (0, 0)
      else if (ucast (b ! 4) :: u64) < 0x80 then (v + push_bit 28 (ucast (b ! 4)), 5)
      else varint_loop 5 (v + push_bit 28 (ucast (b ! 4)) - push_bit 28 0x80) b)"
  by (subst varint_loop.simps) (simp add: Let_def)

lemma varint_loop_5:
  "varint_loop 5 v b =
     (if length b \<le> 5 then (0, 0)
      else if (ucast (b ! 5) :: u64) < 0x80 then (v + push_bit 35 (ucast (b ! 5)), 6)
      else varint_loop 6 (v + push_bit 35 (ucast (b ! 5)) - push_bit 35 0x80) b)"
  by (subst varint_loop.simps) (simp add: Let_def)

lemma varint_loop_6:
  "varint_loop 6 v b =
     (if length b \<le> 6 then (0, 0)
      else if (ucast (b ! 6) :: u64) < 0x80 then (v + push_bit 42 (ucast (b ! 6)), 7)
      else varint_loop 7 (v + push_bit 42 (ucast (b ! 6)) - push_bit 42 0x80) b)"
  by (subst varint_loop.simps) (simp add: Let_def)

lemma varint_loop_7:
  "varint_loop 7 v b =
     (if length b \<le> 7 then (0, 0)
      else if (ucast (b ! 7) :: u64) < 0x80 then (v + push_bit 49 (ucast (b ! 7)), 8)
      else varint_loop 8 (v + push_bit 49 (ucast (b ! 7)) - push_bit 49 0x80) b)"
  by (subst varint_loop.simps) (simp add: Let_def)

lemma varint_loop_8:
  "varint_loop 8 v b =
     (if length b \<le> 8 then (0, 0)
      else if (ucast (b ! 8) :: u64) < 0x80 then (v + push_bit 56 (ucast (b ! 8)), 9)
      else varint_loop 9 (v + push_bit 56 (ucast (b ! 8)) - push_bit 56 0x80) b)"
  by (subst varint_loop.simps) (simp add: Let_def)

lemma varint_loop_9:
  "varint_loop 9 v b =
     (if length b \<le> 9 then (0, 0)
      else if (ucast (b ! 9) :: u64) < 2 then (v + push_bit 63 (ucast (b ! 9)), 10)
      else (0, 0))"
  by (subst varint_loop.simps) (simp add: Let_def)

lemma readVarint_loop: "readVarint b = varint_loop 0 0 b"
  unfolding readVarint_def Let_def varint_loop_0 varint_loop_1 varint_loop_2 varint_loop_3
    varint_loop_4 varint_loop_5 varint_loop_6 varint_loop_7 varint_loop_8 varint_loop_9
  by (rule refl)

lemma bit_0x80: "bit (128 :: 'a::len word) n \<longleftrightarrow> n = 7 \<and> 7 < LENGTH('a)"
proof -
  have "(128 :: 'a word) = 2 ^ 7" by simp
  then show ?thesis by (simp only: bit_exp_iff) (auto simp: bit_simps)
qed

lemma take7_add_or: "take_bit 7 (x::u64) + 0x80 = take_bit 7 x OR 0x80"
  apply (rule disjunctive_add)
  apply (simp only: bit_take_bit_iff bit_0x80)
  apply auto
  done

lemma ucast_cont_byte: "(ucast (ucast (x::u64) OR (0x80 :: byte)) :: u64) = take_bit 7 x + 0x80"
  unfolding take7_add_or
  apply (rule bit_word_eqI)
  apply (simp only: bit_simps bit_0x80)
  apply auto
  done

lemma cont_byte_ge: "\<not> take_bit 7 (x::u64) + 0x80 < 0x80"
  unfolding take7_add_or not_less
  by (metis le_word_or2 or.commute)

lemma ucast_last_byte: "(x::u64) < 0x80 \<Longrightarrow> (ucast (ucast x :: byte) :: u64) = x"
proof -
  assume a: "x < 0x80"
  have "(ucast (ucast x :: byte) :: u64) = take_bit 8 x"
    by (rule bit_word_eqI) (auto simp: bit_simps)
  also have "\<dots> = x"
    using a by (simp add: word_unat_eq_iff unsigned_take_bit_eq take_bit_nat_eq_self word_less_nat_alt)
  finally show ?thesis .
qed

lemma regroup: "push_bit (7 * k) (take_bit 7 (x::u64)) + push_bit (7 * (k + 1)) (drop_bit 7 x) = push_bit (7 * k) x"
proof -
  have "push_bit (7 * (k + 1)) (drop_bit 7 x) = push_bit (7 * k) (push_bit 7 (drop_bit 7 x))"
    by (simp add: add.commute)
  then have "push_bit (7 * k) (take_bit 7 x) + push_bit (7 * (k + 1)) (drop_bit 7 x)
      = push_bit (7 * k) (take_bit 7 x + push_bit 7 (drop_bit 7 x))"
    by (simp only: push_bit_add)
  also have "take_bit 7 x + push_bit 7 (drop_bit 7 x) = x"
    using bits_ident[of 7 x] by (simp add: add.commute)
  finally show ?thesis .
qed

lemma varint_loop_encode:
  "k \<le> 9 \<Longrightarrow> unat x < 2 ^ (64 - 7 * k) \<Longrightarrow> length pre = k \<Longrightarrow>
   varint_loop k v (pre @ encode_varint x @ rest)
     = (v + push_bit (7 * k) x, k + length (encode_varint x))"
proof (induction x arbitrary: k v pre rule: encode_varint.induct)
  case (1 x)
  show ?case
  proof (cases "x < 0x80")
    case True
    then have enc: "encode_varint x = [ucast x]"
      by (simp add: encode_varint.simps)
    have nth: "(pre @ encode_varint x @ rest) ! k = ucast x"
      using "1.prems"(3) enc by (simp add: nth_append)
    have len: "\<not> length (pre @ encode_varint x @ rest) \<le> k"
      using "1.prems"(3) enc by simp
    note y = ucast_last_byte[OF True]
    show ?thesis
    proof (cases "k = 9")
      case k9: True
      with "1.prems"(2) have "unat x < 2" by simp
      then have "x < 2" by (simp add: word_less_nat_alt)
      then show ?thesis
        using k9 len nth y enc by (subst varint_loop.simps) (simp add: Let_def)
    next
      case False
      with "1.prems"(1) have "\<not> 9 \<le> k" by simp
      then show ?thesis
        using len nth y enc True by (subst varint_loop.simps) (simp add: Let_def)
    qed
  next
    case False
    then have enc: "encode_varint x = (ucast x OR 0x80) # encode_varint (drop_bit 7 x)"
      by (simp add: encode_varint.simps)
    have nth: "(pre @ encode_varint x @ rest) ! k = ucast x OR 0x80"
      using "1.prems"(3) enc by (simp add: nth_append)
    have len: "\<not> length (pre @ encode_varint x @ rest) \<le> k"
      using "1.prems"(3) enc by simp
    from False have ge: "128 \<le> unat x"
      by (simp add: word_less_nat_alt not_less)
    have k8: "k \<le> 8"
    proof (rule ccontr)
      assume "\<not> k \<le> 8"
      with "1.prems"(1) have "k = 9" by simp
      with "1.prems"(2) ge show False by simp
    qed
    then have pw: "(2::nat) ^ (64 - 7 * k) = 128 * 2 ^ (64 - 7 * (k + 1))"
    proof -
      have "64 - 7 * k = 7 + (64 - 7 * (k + 1))" using k8 by simp
      then show ?thesis by (simp only: power_add) simp
    qed
    have bound: "unat (drop_bit 7 x) < 2 ^ (64 - 7 * (k + 1))"
      using "1.prems"(2) unfolding pw
      by (simp add: unat_drop_bit_eq drop_bit_eq_div unat_div less_mult_imp_div_less mult.commute)
    have IH: "varint_loop (k + 1) v' ((pre @ [ucast x OR 0x80]) @ encode_varint (drop_bit 7 x) @ rest)
        = (v' + push_bit (7 * (k + 1)) (drop_bit 7 x), (k + 1) + length (encode_varint (drop_bit 7 x)))" for v'
      using "1.IH"[OF False, of "k + 1" "pre @ [ucast x OR 0x80]" v'] k8 bound "1.prems"(3) by simp
    have step: "varint_loop k v (pre @ encode_varint x @ rest)
       = varint_loop (k + 1) (v + push_bit (7 * k) (take_bit 7 x + 0x80) - push_bit (7 * k) 0x80)
           (pre @ encode_varint x @ rest)"
      using len k8 cont_byte_ge[of x]
      by (subst varint_loop.simps) (simp add: nth ucast_cont_byte Let_def)
    have val: "v + push_bit (7 * k) (take_bit 7 x + 0x80) - push_bit (7 * k) 0x80 
        + push_bit (7 * (k + 1)) (drop_bit 7 x) = v + push_bit (7 * k) x"
      using regroup[of k x] by (simp add: push_bit_add)
    show ?thesis
      unfolding step using IH val by (simp add: enc)
  qed
qed

lemma readVarint_encode:
  "readVarint (encode_varint x @ rest) = (x, length (encode_varint x))"
proof -
  have "unat x < 2 ^ (64 - 7 * 0)"
    using unsigned_less[of x, where 'a = nat] by simp
  then show ?thesis
    using varint_loop_encode[of 0 x "[]" 0 rest] by (simp add: readVarint_loop)
qed

lemma signed_drop_bit_63:
  "signed_drop_bit 63 (w::u64) = (if bit w 63 then - 1 else 0)"
proof (rule bit_word_eqI)
  fix n assume "n < LENGTH(64)"
  then show "bit (signed_drop_bit 63 w) n = bit (if bit w 63 then - 1 else 0 :: u64) n"
    by (cases "n = 0") (auto simp: bit_signed_drop_bit_iff)
qed

lemma bit_double_word: "bit (n * 2 :: u64) (Suc k) \<longleftrightarrow> k < 63 \<and> bit n k"
  using bit_double_Suc_iff[of n k] by (auto simp: mult.commute bit_simps)

lemma zigzag_decode_bits:
  "drop_bit 1 (push_bit 1 n XOR (if bit n 63 then - 1 else 0))
     XOR (if bit n 63 then - 1 else 0) = (n :: u64)"
proof (rule bit_word_eqI)
  fix k assume "k < LENGTH(64)"
  then have "k < 63 \<or> k = 63" by auto
  then show "bit (drop_bit 1 (push_bit 1 n XOR (if bit n 63 then - 1 else 0))
      XOR (if bit n 63 then - 1 else 0)) k = bit n k"
    by (auto simp: bit_simps bit_double_word)
qed

lemma zigzag_roundtrip:
  "drop_bit 1 (zigzag_encode n) XOR signed_drop_bit 63 (push_bit 63 (zigzag_encode n)) = n"
proof -
  have low: "bit (push_bit 63 (push_bit 1 n XOR signed_drop_bit 63 n)) 63 = bit n 63"
    by (simp only: signed_drop_bit_63 bit_push_bit_iff bit_xor_iff) (auto simp: bit_simps)
  show ?thesis
    unfolding zigzag_encode_def
    by (simp only: low signed_drop_bit_63[of "push_bit 63 _"])
       (simp only: signed_drop_bit_63 zigzag_decode_bits)
qed

lemma readSint_encode:
  "readSint (encode_varint (zigzag_encode n) @ rest)
     = (n, length (encode_varint (zigzag_encode n)))"
  by (simp only: readSint_def readVarint_encode Let_def prod.case zigzag_roundtrip)

lemma unat_ucast_byte: "unat (ucast (y::byte) :: u64) = unat y"
proof -
  have "unat y < 2 ^ 64"
    using unsigned_less[of y, where 'a = nat] by simp
  then show ?thesis
    by (simp add: unsigned_ucast_eq take_bit_nat_eq_self)
qed

lemma ucast_byte_less: "(ucast (y::byte) :: u64) < 0x80 \<longleftrightarrow> y < 0x80"
  by (simp add: word_less_nat_alt unat_ucast_byte)

lemma ucast_byte_less2: "(ucast (y::byte) :: u64) < 2 \<longleftrightarrow> y < 2"
  by (simp add: word_less_nat_alt unat_ucast_byte)

lemma varint_loop_zero:
  "k \<le> 9 \<Longrightarrow>
   snd (varint_loop k v b) = 0 \<longleftrightarrow>
     (length b < 10 \<and> list_all (\<lambda>y. 0x80 \<le> y) (drop k b)) \<or>
     (10 \<le> length b \<and> list_all (\<lambda>y. 0x80 \<le> y) (take (9 - k) (drop k b)) \<and> 2 \<le> b ! 9)"
proof (induction k v b rule: varint_loop.induct)
  case (1 k v b)
  show ?case
  proof (cases "length b \<le> k")
    case True
    with "1.prems" show ?thesis
      by (subst varint_loop.simps) simp
  next
    case lenk: False
    then have dr: "drop k b = b ! k # drop (Suc k) b"
      by (simp add: Cons_nth_drop_Suc)
    show ?thesis
    proof (cases "k = 9")
      case True
      with lenk show ?thesis
        by (subst varint_loop.simps) (auto simp add: Let_def ucast_byte_less2 not_le)
    next
      case False
      with "1.prems" have k8: "\<not> 9 \<le> k" "9 - k = Suc (8 - k)" "9 - (k + 1) = 8 - k"
        by simp_all
      show ?thesis
      proof (cases "b ! k < 0x80")
        case True
        with lenk k8 show ?thesis
          by (subst varint_loop.simps) (simp add: Let_def ucast_byte_less dr not_le)
      next
        case hi: False
        have "snd (varint_loop k v b)
            = snd (varint_loop (k + 1)
                (v + push_bit (7 * k) (ucast (b ! k)) - push_bit (7 * k) 0x80) b)"
          using lenk k8 hi by (subst varint_loop.simps) (simp add: Let_def ucast_byte_less)
        also have "\<dots> = 0 \<longleftrightarrow>
            (length b < 10 \<and> list_all (\<lambda>y. 0x80 \<le> y) (drop (k + 1) b)) \<or>
            (10 \<le> length b \<and> list_all (\<lambda>y. 0x80 \<le> y) (take (9 - (k + 1)) (drop (k + 1) b))
               \<and> 2 \<le> b ! 9)"
          using "1.IH"[OF lenk refl k8(1) refl] hi "1.prems" False
          by (simp add: ucast_byte_less)
        finally show ?thesis
          using hi by (simp add: dr k8 not_less)
      qed
    qed
  qed
qed

lemma readVarint_zero: "snd (readVarint b) = 0 \<longleftrightarrow> truncated b \<or> overflows b"
  using varint_loop_zero[of 0 0 b] by (simp add: readVarint_loop truncated_def overflows_def)

text \<open>
  C3. For every 64-bit \<open>x\<close>, \<open>readVarint\<close> on the base-128 encoding of \<open>x\<close> (whatever
  bytes follow it) returns \<open>x\<close> and the length of the encoding; for every int64 \<open>n\<close>,
  \<open>readSint\<close> on the varint encoding of its zigzag image returns \<open>n\<close> and the length;
  and \<open>readVarint\<close> returns \<open>n = 0\<close> exactly when the input is truncated or the tenth
  byte is 2 or more.
\<close>

theorem varint_zigzag_roundtrip:
  "readVarint (encode_varint x @ rest) = (x, length (encode_varint x)) \<and>
   readSint (encode_varint (zigzag_encode n) @ rest)
     = (n, length (encode_varint (zigzag_encode n))) \<and>
   (snd (readVarint b) = 0 \<longleftrightarrow> truncated b \<or> overflows b)"
  by (simp only: readVarint_encode readSint_encode readVarint_zero simp_thms)

theorem varint_zigzag_roundtrip_witness:
  "readVarint (encode_varint 300 @ [7]) = (300, 2) \<and>
   readSint (encode_varint (zigzag_encode (- 3)) @ [7]) = (- 3, 1) \<and>
   (snd (readVarint [0x80, 0x80]) = 0 \<longleftrightarrow> True)"
proof -
  have e1: "encode_varint 300 = [0xAC, 0x02]"
    by (simp add: encode_varint.simps)
  have e2: "encode_varint (zigzag_encode (- 3)) = [5]"
    by (simp add: encode_varint.simps zigzag_encode_def signed_drop_bit_63 bit_simps)
  have t: "truncated [0x80, 0x80]"
    by (simp add: truncated_def)
  show ?thesis
    using varint_zigzag_roundtrip[of 300 "[7]" "- 3" "[0x80, 0x80]"] t
    by (simp add: e1 e2)
qed

text \<open>
  C6 (wire type 0). The loop of \<open>skipField\<close> returns at the first byte whose
  continuation bit is set, where a varint ends at the first byte whose continuation bit
  is clear. On the one-byte varint \<open>05\<close> it answers 2, and on the two-byte varint
  \<open>AC 02\<close> (300) it answers 1; \<open>readVarint\<close> reads 1 and 2 bytes there.
\<close>

theorem skipField_varint_length_mismatch:
  "skipField [0x05] 0 = 2 \<and> readVarint [0x05] = (5, 1) \<and>
   skipField [0xAC, 0x02] 0 = 1 \<and> readVarint [0xAC, 0x02] = (300, 2)"
  by (simp add: skipField_def skipVarint.simps readVarint_def)

lemma skipField_fixed:
  "skipField buf 1 = 8 \<and> skipField buf 5 = 4 \<and>
   (wireType \<notin> {0, 1, 2, 5} \<longrightarrow> skipField buf wireType = 0) \<and>
   skipField buf 2 = sint (fst (readVarint buf) + word_of_nat (snd (readVarint buf)))"
  by (simp add: skipField_def split: prod.splits)

section \<open>Proofs: relation way assembly\<close>

lemma appendCoords_Some_not_stuck:
  assumes "appendCoords a b = Some r"
  shows "\<not> (0 < length a \<and> 1 < length b \<and> b ! 0 \<noteq> last a \<and> b ! 1 \<noteq> last a)"
  by (rule appendCoords.raw_induct
        [where P = "\<lambda>a b r. \<not> (0 < length a \<and> 1 < length b \<and> b ! 0 \<noteq> last a \<and> b ! 1 \<noteq> last a)",
         OF _ assms])
     (auto split: if_splits)

lemma appendCoords_stuck:
  "0 < length a \<Longrightarrow> 1 < length b \<Longrightarrow> b ! 0 \<noteq> last a \<Longrightarrow> b ! 1 \<noteq> last a \<Longrightarrow>
   appendCoords a b = None"
  using appendCoords_Some_not_stuck[of a b] by (cases "appendCoords a b") auto

lemma appendCoords_shared_endpoint:
  assumes "p1 \<noteq> p2" "p1 \<noteq> p3"
  shows "appendCoords [p1, p2] [p2, p3] = None"
proof -
  have "appendCoords [p1, p2] [p2, p3] = appendCoords [p1] [p2, p3]"
    by (subst appendCoords.simps) simp
  also have "\<dots> = None"
    using assms by (intro appendCoords_stuck) auto
  finally show ?thesis .
qed

lemma connectRelationWays_shared_endpoint:
  assumes "p1 \<noteq> p2" "p1 \<noteq> p3" "n1 \<noteq> n2" "n2 \<noteq> n3" "n1 \<noteq> n3"
  shows "connectRelationWays
           [\<lparr>rw_Coords = [p1, p2], rw_First = n1, rw_Last = n2\<rparr>,
            \<lparr>rw_Coords = [p2, p3], rw_First = n2, rw_Last = n3\<rparr>] = None"
proof -
  have a: "appendCoords [p1, p2] [p2, p3] = None"
    using assms by (intro appendCoords_shared_endpoint)
  show ?thesis
    using assms(3-5)
    by (simp add: connectRelationWays_def crw_outer.simps[of _ 0] crw_outer.simps[of _ "Suc 0"]
        crw_inner.simps[of _ _ _ _ 0 0] crw_inner.simps[of _ _ _ _ 0 "Suc 0"] a)
qed

text \<open>
  C2. The relation of two open ways \<open>A = [n1, n2]\<close> and \<open>B = [n2, n3]\<close> (node ids 1, 2, 3
  at (0,0), (1,0), (2,0)). \<open>connectRelationWays\<close> finds that \<open>B\<close> starts where \<open>A\<close> ends
  and calls \<open>appendCoords [p1, p2] [p2, p3]\<close>; that call drops the shared point from \<open>a\<close>
  and then spins on \<open>a = [p1]\<close>, \<open>b = [p2, p3]\<close>, where neither test of the loop body
  holds. The assembly does not return.
\<close>

theorem connectRelationWays_two_open_ways_diverges:
  "connectRelationWays
     [\<lparr>rw_Coords = [\<lparr>X = 0, Y = 0\<rparr>, \<lparr>X = 1, Y = 0\<rparr>], rw_First = 1, rw_Last = 2\<rparr>,
      \<lparr>rw_Coords = [\<lparr>X = 1, Y = 0\<rparr>, \<lparr>X = 2, Y = 0\<rparr>], rw_First = 2, rw_Last = 3\<rparr>] = None"
  by (rule connectRelationWays_shared_endpoint) simp_all

section \<open>Proofs: dense containers\<close>

lemma arraySize_8_06: "arraySize 8 (6 / 10) = 16"
  by (simp add: arraySize_def nextPowerOf2_def Let_def)

lemma NewUint64Map_8_06: "NewUint64Map 8 (6 / 10) = Inr map_8_06"
  using arraySize_8_06 by (simp add: NewUint64Map_def map_8_06_def Let_def)

lemma NewUint64Set_8_06: "NewUint64Set 8 (6 / 10) = Inr set_8_06"
  using arraySize_8_06 by (simp add: NewUint64Set_def set_8_06_def Let_def)

lemma Set_Add_fresh_1:
  "Set_Add set_8_06 1 = Some (Inr (set_8_06\<lparr>s_data := (replicate 16 0)[14 := 1], s_size := 1\<rparr>))"
  by (simp add: Set_Add_def Set_Add_probe.simps set_8_06_def phiMix_def INT_PHI_def
      FREE_KEY_def Let_def)

lemma Set_keys_fresh: "Set_keys set_8_06 = []"
  by (simp add: Set_keys_def set_8_06_def FREE_KEY_def)

lemma Set_Del_free_key:
  "Set_Del m 0 = Some (Inr (m\<lparr>s_hasFreeKey := False, s_size := s_size m - 1\<rparr>))"
  by (simp add: Set_Del_def FREE_KEY_def)

lemma Map_Del_free_key_absent:
  "\<not> m_hasFreeKey m \<Longrightarrow> Map_Del m 0 = Some (Inr m)"
  by (simp add: Map_Del_def FREE_KEY_def)

text \<open>
  C4 (set, key 0). On the new set of \<^verbatim>\<open>NewUint64Set(8, 0.6)\<close>, which holds no key,
  \<^verbatim>\<open>Del(0)\<close> returns a set of size \<open>- 1\<close> that still holds no key (\<open>Has\<close> is false
  for 0 and \<open>Set_keys\<close> is empty); a following \<^verbatim>\<open>Add(0)\<close> gives a set that holds the
  key 0 and reports size 0. The map's \<^verbatim>\<open>Del(0)\<close> tests the flag first and leaves the new
  map unchanged.
\<close>

theorem Set_Del_absent_free_key_breaks_size:
  "NewUint64Set 8 (6 / 10) = Inr set_8_06 \<and>
   Set_Has set_8_06 0 = Some (Inr False) \<and> Set_Size set_8_06 = 0 \<and>
   Set_Del set_8_06 0 = Some (Inr (set_8_06\<lparr>s_size := - 1\<rparr>)) \<and>
   Set_Has (set_8_06\<lparr>s_size := - 1\<rparr>) 0 = Some (Inr False) \<and>
   Set_keys (set_8_06\<lparr>s_size := - 1\<rparr>) = [] \<and>
   Set_Size (set_8_06\<lparr>s_size := - 1\<rparr>) = - 1 \<and>
   Set_Add (set_8_06\<lparr>s_size := - 1\<rparr>) 0
     = Some (Inr (set_8_06\<lparr>s_size := 0, s_hasFreeKey := True\<rparr>)) \<and>
   Set_keys (set_8_06\<lparr>s_size := 0, s_hasFreeKey := True\<rparr>) = [0] \<and>
   Set_Size (set_8_06\<lparr>s_size := 0, s_hasFreeKey := True\<rparr>) = 0 \<and>
   Map_Del map_8_06 0 = Some (Inr map_8_06) \<and> Map_Size map_8_06 = 0"
proof -
  have d: "Set_Del set_8_06 0 = Some (Inr (set_8_06\<lparr>s_size := - 1\<rparr>))"
    by (simp add: Set_Del_free_key) (simp add: set_8_06_def)
  have m: "Map_Del map_8_06 0 = Some (Inr map_8_06)"
    by (rule Map_Del_free_key_absent) (simp add: map_8_06_def)
  have rest: "Set_Has set_8_06 0 = Some (Inr False) \<and> Set_Size set_8_06 = 0 \<and>
     Set_Has (set_8_06\<lparr>s_size := - 1\<rparr>) 0 = Some (Inr False) \<and>
     Set_keys (set_8_06\<lparr>s_size := - 1\<rparr>) = [] \<and>
     Set_Size (set_8_06\<lparr>s_size := - 1\<rparr>) = - 1 \<and>
     Set_Add (set_8_06\<lparr>s_size := - 1\<rparr>) 0
       = Some (Inr (set_8_06\<lparr>s_size := 0, s_hasFreeKey := True\<rparr>)) \<and>
     Set_keys (set_8_06\<lparr>s_size := 0, s_hasFreeKey := True\<rparr>) = [0] \<and>
     Set_Size (set_8_06\<lparr>s_size := 0, s_hasFreeKey := True\<rparr>) = 0 \<and>
     Map_Size map_8_06 = 0"
    by (simp add: Set_Has_def Set_Add_def Set_Size_def Set_keys_def Map_Size_def set_8_06_def
        map_8_06_def FREE_KEY_def)
  show ?thesis
    using NewUint64Set_8_06 d m rest by (simp only: simp_thms)
qed

section \<open>Proofs: Map.Put and Map.Get\<close>

lemma Map_shapeE:
  assumes "Map_shape m"
  obtains e where "1 \<le> e" "e \<le> 62" "length (m_data m) = 2 * 2 ^ e" "Map_cap m = 2 ^ e"
    "m_mask m = mask e" "m_mask2 m = mask (Suc e)"
  using assms unfolding Map_shape_def Map_cap_def by (auto simp: mask_eq_exp_minus_1)

lemma slot_unat:
  assumes "e \<le> 62" "i < 2 ^ e"
  shows "unat (word_of_nat (2 * i) :: u64) = 2 * i"
proof -
  have "(2::nat) ^ e \<le> 2 ^ 62" using assms(1) by (intro power_increasing) simp_all
  hence "2 * i < 2 ^ 64" using assms(2) by simp
  thus ?thesis by (subst unat_of_nat) simp
qed

lemma slot_unat1:
  assumes "e \<le> 62" "i < 2 ^ e"
  shows "unat (word_of_nat (2 * i) + 1 :: u64) = 2 * i + 1"
proof -
  have "(2::nat) ^ e \<le> 2 ^ 62" using assms(1) by (intro power_increasing) simp_all
  hence "2 * i + 1 < 2 ^ 64" using assms(2) by simp
  hence "unat (word_of_nat (2 * i + 1) :: u64) = 2 * i + 1"
    by (subst unat_of_nat) simp
  thus ?thesis by (simp add: add.commute)
qed

lemma slot_next:
  assumes "e \<le> 62" "i < 2 ^ e"
  shows "(word_of_nat (2 * i) + 2) AND mask (Suc e) = (word_of_nat (2 * ((i + 1) mod 2 ^ e)) :: u64)"
proof -
  have "(word_of_nat (2 * i) + 2 :: u64) = word_of_nat (2 * (i + 1))" by simp
  hence "(word_of_nat (2 * i) + 2) AND mask (Suc e) = take_bit (Suc e) (word_of_nat (2 * (i + 1)) :: u64)"
    by (simp only: take_bit_eq_mask)
  also have "\<dots> = word_of_nat (take_bit (Suc e) (2 * (i + 1)))"
    by (simp only: of_nat_take_bit) 
  also have "take_bit (Suc e) (2 * (i + 1)) = 2 * ((i + 1) mod 2 ^ e)"
    by (simp add: take_bit_eq_mod mult_mod_right)
  finally show ?thesis .
qed

lemma slot_home:
  fixes h :: u64
  shows "push_bit 1 (h AND mask e) = (word_of_nat (2 * unat (h AND mask e)) :: u64)"
  by (simp add: push_bit_eq_mult)

lemma home_less:
  fixes h :: u64
  assumes "e \<le> 62"
  shows "unat (h AND mask e) < 2 ^ e"
proof -
  have "unat (h AND mask e) = take_bit e (unat h)"
    by (simp add: take_bit_eq_mask [symmetric] unsigned_take_bit_eq)
  thus ?thesis by (simp add: take_bit_eq_mod)
qed

lemma Map_Put_loop_step:
  assumes "Map_shape m" "i < Map_cap m" "Map_key_at m i \<noteq> FREE_KEY" "Map_key_at m i \<noteq> key"
  shows "Map_Put_loop m key val (word_of_nat (2 * i)) (Map_key_at m i) =
         Map_Put_loop m key val (word_of_nat (2 * ((i + 1) mod Map_cap m)))
           (Map_key_at m ((i + 1) mod Map_cap m))"
proof -
  from assms(1) obtain e where e: "1 \<le> e" "e \<le> 62" "length (m_data m) = 2 * 2 ^ e"
    "Map_cap m = 2 ^ e" "m_mask m = mask e" "m_mask2 m = mask (Suc e)"
    by (rule Map_shapeE)
  have i: "i < 2 ^ e" using assms(2) e(4) by simp
  have i': "(i + 1) mod 2 ^ e < 2 ^ e" by simp
  have nxt: "(word_of_nat (2 * i) + 2) AND m_mask2 m = (word_of_nat (2 * ((i + 1) mod 2 ^ e)) :: u64)"
    unfolding e(6) by (rule slot_next [OF e(2) i])
  have un: "unat (word_of_nat (2 * ((i + 1) mod 2 ^ e)) :: u64) = 2 * ((i + 1) mod 2 ^ e)"
    by (rule slot_unat [OF e(2) i'])
  have lt: "2 * ((i + 1) mod 2 ^ e) < length (m_data m)"
    unfolding e(3) using i' by simp
  show ?thesis
    apply (subst Map_Put_loop.simps)
    apply (simp only: assms(3,4) if_False Let_def nxt un lt if_True e(4))
    apply (simp only: Map_key_at_def)
    done
qed

lemma Map_Put_loop_skip:
  assumes "Map_shape m" "i < Map_cap m"
    and "\<forall>j<d. Map_key_at m ((i + j) mod Map_cap m) \<noteq> FREE_KEY \<and>
               Map_key_at m ((i + j) mod Map_cap m) \<noteq> key"
  shows "Map_Put_loop m key val (word_of_nat (2 * i)) (Map_key_at m i) =
         Map_Put_loop m key val (word_of_nat (2 * ((i + d) mod Map_cap m)))
           (Map_key_at m ((i + d) mod Map_cap m))"
  using assms(2,3)
proof (induction d arbitrary: i)
  case 0
  then show ?case by simp
next
  case (Suc d)
  have c: "0 < Map_cap m" using Suc.prems(1) by simp
  from Suc.prems(2) [rule_format, of 0] Suc.prems(1)
  have k: "Map_key_at m i \<noteq> FREE_KEY" "Map_key_at m i \<noteq> key" by simp_all
  have i': "(i + 1) mod Map_cap m < Map_cap m" using c by simp
  have shift: "((i + 1) mod Map_cap m + j) mod Map_cap m = (i + Suc j) mod Map_cap m" for j
    by (simp add: mod_add_left_eq)
  have "\<forall>j<d. Map_key_at m (((i + 1) mod Map_cap m + j) mod Map_cap m) \<noteq> FREE_KEY \<and>
               Map_key_at m (((i + 1) mod Map_cap m + j) mod Map_cap m) \<noteq> key"
    unfolding shift
  proof (intro allI impI)
    fix j assume "j < d"
    hence "Suc j < Suc d" by simp
    from Suc.prems(2) [rule_format, OF this]
    show "Map_key_at m ((i + Suc j) mod Map_cap m) \<noteq> FREE_KEY \<and>
          Map_key_at m ((i + Suc j) mod Map_cap m) \<noteq> key" .
  qed
  from Suc.IH [OF i' this] Map_Put_loop_step [OF assms(1) Suc.prems(1) k]
  show ?case unfolding shift by simp
qed

lemma Map_Get_loop_step:
  assumes "Map_shape m" "i < Map_cap m" "Map_key_at m i \<noteq> FREE_KEY" "Map_key_at m i \<noteq> key"
  shows "Map_Get_loop m key (word_of_nat (2 * i)) (Map_key_at m i) =
         Map_Get_loop m key (word_of_nat (2 * ((i + 1) mod Map_cap m)))
           (Map_key_at m ((i + 1) mod Map_cap m))"
proof -
  from assms(1) obtain e where e: "1 \<le> e" "e \<le> 62" "length (m_data m) = 2 * 2 ^ e"
    "Map_cap m = 2 ^ e" "m_mask m = mask e" "m_mask2 m = mask (Suc e)"
    by (rule Map_shapeE)
  have i: "i < 2 ^ e" using assms(2) e(4) by simp
  have i': "(i + 1) mod 2 ^ e < 2 ^ e" by simp
  have nxt: "(word_of_nat (2 * i) + 2) AND m_mask2 m = (word_of_nat (2 * ((i + 1) mod 2 ^ e)) :: u64)"
    unfolding e(6) by (rule slot_next [OF e(2) i])
  have un: "unat (word_of_nat (2 * ((i + 1) mod 2 ^ e)) :: u64) = 2 * ((i + 1) mod 2 ^ e)"
    by (rule slot_unat [OF e(2) i'])
  have lt: "2 * ((i + 1) mod 2 ^ e) < length (m_data m)"
    unfolding e(3) using i' by simp
  show ?thesis
    apply (subst Map_Get_loop.simps)
    apply (simp only: assms(3,4) if_False Let_def nxt un lt if_True e(4))
    apply (simp only: Map_key_at_def)
    done
qed

lemma Map_Get_loop_skip:
  assumes "Map_shape m" "i < Map_cap m"
    and "\<forall>j<d. Map_key_at m ((i + j) mod Map_cap m) \<noteq> FREE_KEY \<and>
               Map_key_at m ((i + j) mod Map_cap m) \<noteq> key"
  shows "Map_Get_loop m key (word_of_nat (2 * i)) (Map_key_at m i) =
         Map_Get_loop m key (word_of_nat (2 * ((i + d) mod Map_cap m)))
           (Map_key_at m ((i + d) mod Map_cap m))"
  using assms(2,3)
proof (induction d arbitrary: i)
  case 0
  then show ?case by simp
next
  case (Suc d)
  have c: "0 < Map_cap m" using Suc.prems(1) by simp
  from Suc.prems(2) [rule_format, of 0] Suc.prems(1)
  have k: "Map_key_at m i \<noteq> FREE_KEY" "Map_key_at m i \<noteq> key" by simp_all
  have i': "(i + 1) mod Map_cap m < Map_cap m" using c by simp
  have shift: "((i + 1) mod Map_cap m + j) mod Map_cap m = (i + Suc j) mod Map_cap m" for j
    by (simp add: mod_add_left_eq)
  have "\<forall>j<d. Map_key_at m (((i + 1) mod Map_cap m + j) mod Map_cap m) \<noteq> FREE_KEY \<and>
               Map_key_at m (((i + 1) mod Map_cap m + j) mod Map_cap m) \<noteq> key"
    unfolding shift
  proof (intro allI impI)
    fix j assume "j < d"
    hence "Suc j < Suc d" by simp
    from Suc.prems(2) [rule_format, OF this]
    show "Map_key_at m ((i + Suc j) mod Map_cap m) \<noteq> FREE_KEY \<and>
          Map_key_at m ((i + Suc j) mod Map_cap m) \<noteq> key" .
  qed
  from Suc.IH [OF i' this] Map_Get_loop_step [OF assms(1) Suc.prems(1) k]
  show ?case unfolding shift by simp
qed

lemma Map_cap_pos: "Map_shape m \<Longrightarrow> 0 < Map_cap m"
  by (erule Map_shapeE) simp

lemma Map_length: "Map_shape m \<Longrightarrow> length (m_data m) = 2 * Map_cap m"
  by (erule Map_shapeE) simp

lemma Map_home_less: "Map_shape m \<Longrightarrow> Map_home m key < Map_cap m"
  unfolding Map_home_def by (erule Map_shapeE) (simp add: home_less)

lemma Map_home_ptr:
  "Map_shape m \<Longrightarrow> push_bit 1 (phiMix key AND m_mask m) = word_of_nat (2 * Map_home m key)"
  unfolding Map_home_def by (erule Map_shapeE) (simp only: slot_home)

lemma Map_slot_unat:
  "Map_shape m \<Longrightarrow> i < Map_cap m \<Longrightarrow> unat (word_of_nat (2 * i) :: u64) = 2 * i"
  by (erule Map_shapeE) (rule slot_unat, simp_all)

lemma Map_slot_unat1:
  "Map_shape m \<Longrightarrow> i < Map_cap m \<Longrightarrow> unat (word_of_nat (2 * i) + 1 :: u64) = 2 * i + 1"
  by (erule Map_shapeE) (rule slot_unat1, simp_all)

lemma Map_dist_less: "0 < Map_cap m \<Longrightarrow> Map_dist m h s < Map_cap m"
  unfolding Map_dist_def by simp

lemma Map_dist_reach:
  assumes "h < Map_cap m" "s < Map_cap m"
  shows "(h + Map_dist m h s) mod Map_cap m = s"
proof -
  have "(h + Map_dist m h s) mod Map_cap m = (h + (s + Map_cap m - h)) mod Map_cap m"
    unfolding Map_dist_def by (simp add: mod_add_right_eq)
  also have "h + (s + Map_cap m - h) = s + Map_cap m" using assms by simp
  finally show ?thesis using assms by simp
qed

lemma Map_dist_unique:
  assumes "h < Map_cap m" "d < Map_cap m"
  shows "Map_dist m h ((h + d) mod Map_cap m) = d"
proof (cases "h + d < Map_cap m")
  case True
  then show ?thesis unfolding Map_dist_def using assms by simp
next
  case False
  hence "(h + d) mod Map_cap m = h + d - Map_cap m"
    using assms by (simp add: le_mod_geq)
  moreover have "h + d - Map_cap m + Map_cap m - h = d" using False assms by simp
  ultimately show ?thesis unfolding Map_dist_def using assms by simp
qed

lemma Map_Get_start:
  assumes "Map_shape m" "key \<noteq> FREE_KEY"
  shows "Map_Get m key =
         Map_Get_loop m key (word_of_nat (2 * Map_home m key)) (Map_key_at m (Map_home m key))"
proof -
  have "unat (word_of_nat (2 * Map_home m key) :: u64) = 2 * Map_home m key"
    by (rule Map_slot_unat [OF assms(1) Map_home_less [OF assms(1)]])
  moreover have "2 * Map_home m key < length (m_data m)"
    using Map_home_less [OF assms(1), of key] Map_length [OF assms(1)] by simp
  ultimately show ?thesis
    unfolding Map_Get_def Let_def Map_home_ptr [OF assms(1)] Map_key_at_def
    using assms(2) by simp
qed

lemma Map_Put_start:
  assumes "Map_shape m" "key \<noteq> FREE_KEY"
  shows "Map_Put m key val =
         Map_Put_loop m key val (word_of_nat (2 * Map_home m key)) (Map_key_at m (Map_home m key))"
proof -
  have "unat (word_of_nat (2 * Map_home m key) :: u64) = 2 * Map_home m key"
    by (rule Map_slot_unat [OF assms(1) Map_home_less [OF assms(1)]])
  moreover have "2 * Map_home m key < length (m_data m)"
    using Map_home_less [OF assms(1), of key] Map_length [OF assms(1)] by simp
  ultimately show ?thesis
    unfolding Map_Put_def Let_def Map_home_ptr [OF assms(1)] Map_key_at_def
    using assms(2) by simp
qed

text \<open>The probe from the home slot of a stored key reaches its slot.\<close>

lemma Map_path_to_key:
  assumes "Map_shape m" "Map_keys_distinct m" "Map_chain m"
    and "s < Map_cap m" "Map_key_at m s = key" "key \<noteq> FREE_KEY"
  shows "\<forall>j<Map_dist m (Map_home m key) s.
           Map_key_at m ((Map_home m key + j) mod Map_cap m) \<noteq> FREE_KEY \<and>
           Map_key_at m ((Map_home m key + j) mod Map_cap m) \<noteq> key"
proof (intro allI impI conjI)
  fix j assume j: "j < Map_dist m (Map_home m key) s"
  have c: "0 < Map_cap m" by (rule Map_cap_pos [OF assms(1)])
  have h: "Map_home m key < Map_cap m" by (rule Map_home_less [OF assms(1)])
  from assms(3) [unfolded Map_chain_def, rule_format, of s] assms(4,5,6) j
  show free: "Map_key_at m ((Map_home m key + j) mod Map_cap m) \<noteq> FREE_KEY"
    by simp
  show "Map_key_at m ((Map_home m key + j) mod Map_cap m) \<noteq> key"
  proof
    assume eq: "Map_key_at m ((Map_home m key + j) mod Map_cap m) = key"
    have "(Map_home m key + j) mod Map_cap m < Map_cap m" using c by simp
    with assms(2) [unfolded Map_keys_distinct_def, rule_format,
        of "(Map_home m key + j) mod Map_cap m" s] eq assms(4,5,6)
    have "(Map_home m key + j) mod Map_cap m = s" by simp
    moreover have "j < Map_cap m" using j Map_dist_less [OF c, of "Map_home m key" s] by simp
    ultimately have "Map_dist m (Map_home m key) s = j"
      using Map_dist_unique [OF h, of j] by simp
    with j show False by simp
  qed
qed

lemma Map_Get_found:
  assumes "Map_inv m" "s < Map_cap m" "Map_key_at m s = key" "key \<noteq> FREE_KEY"
  shows "Map_Get m key = Some (Inr (Map_val_at m s, True))"
proof -
  from assms(1) have sh: "Map_shape m" and di: "Map_keys_distinct m" and ch: "Map_chain m"
    unfolding Map_inv_def by simp_all
  have h: "Map_home m key < Map_cap m" by (rule Map_home_less [OF sh])
  have "Map_Get m key =
        Map_Get_loop m key (word_of_nat (2 * ((Map_home m key + Map_dist m (Map_home m key) s) mod Map_cap m)))
          (Map_key_at m ((Map_home m key + Map_dist m (Map_home m key) s) mod Map_cap m))"
    unfolding Map_Get_start [OF sh assms(4)]
    by (rule Map_Get_loop_skip [OF sh h Map_path_to_key [OF sh di ch assms(2,3,4)]])
  also have "\<dots> = Map_Get_loop m key (word_of_nat (2 * s)) key"
    unfolding Map_dist_reach [OF h assms(2)] assms(3) ..
  also have "\<dots> = Some (Inr (Map_val_at m s, True))"
    using assms(4) Map_slot_unat1 [OF sh assms(2)] Map_length [OF sh] assms(2)
    by (subst Map_Get_loop.simps) (simp add: Map_val_at_def)
  finally show ?thesis .
qed

lemma Map_Put_body:
  "(\<lambda>m key val.
      if key = FREE_KEY then
        Some (Inr (m\<lparr>m_freeVal := val,
                     m_size := (if \<not> m_hasFreeKey m then m_size m + 1 else m_size m),
                     m_hasFreeKey := True\<rparr>))
      else let ptr = push_bit 1 (phiMix key AND m_mask m) in
        if unat ptr < length (m_data m)
        then Map_Put_loop m key val ptr (m_data m ! unat ptr)
        else Some (Inl index_out_of_range)) = Map_Put"
  by (intro ext) (simp only: Map_Put_def)

lemma Map_threshold_less:
  assumes "Map_inv m"
  shows "m_threshold m < int (Map_cap m)"
proof -
  from assms have sh: "Map_shape m" and t: "m_threshold m = \<lfloor>real (Map_cap m) * m_fillFactor m\<rfloor>"
    and f: "m_fillFactor m < 1"
    unfolding Map_inv_def by simp_all
  have "0 < real (Map_cap m)" using Map_cap_pos [OF sh] by simp
  hence "real (Map_cap m) * m_fillFactor m < real (Map_cap m)" using f by simp
  thus ?thesis unfolding t by (simp add: floor_less_iff)
qed

lemma Map_count_less:
  assumes "Map_inv m"
  shows "Map_count m < Map_cap m"
  using Map_threshold_less [OF assms] assms unfolding Map_inv_def by simp

lemma Map_free_slot:
  assumes "Map_count m < Map_cap m"
  shows "\<exists>s<Map_cap m. Map_key_at m s = FREE_KEY"
proof (rule ccontr)
  assume "\<not> ?thesis"
  hence "{i\<in>{..<Map_cap m}. Map_key_at m i \<noteq> FREE_KEY} = {..<Map_cap m}" by auto
  hence "Map_count m = Map_cap m" unfolding Map_count_def by simp
  with assms show False by simp
qed

lemma Map_probe_free:
  assumes inv: "Map_inv m" and h: "h < Map_cap m"
  shows "\<exists>s<Map_cap m. Map_key_at m s = FREE_KEY \<and>
           (\<forall>j<Map_dist m h s. Map_key_at m ((h + j) mod Map_cap m) \<noteq> FREE_KEY)"
proof -
  from inv have sh: "Map_shape m" unfolding Map_inv_def by simp
  have c: "0 < Map_cap m" by (rule Map_cap_pos [OF sh])
  define P where "P d \<longleftrightarrow> Map_key_at m ((h + d) mod Map_cap m) = FREE_KEY" for d
  from Map_free_slot [OF Map_count_less [OF inv]]
  obtain s0 where s0: "s0 < Map_cap m" "Map_key_at m s0 = FREE_KEY" by blast
  have "P (Map_dist m h s0)" unfolding P_def using Map_dist_reach [OF h s0(1)] s0(2) by simp
  then obtain d where d: "P d" "\<forall>j<d. \<not> P j" "d \<le> Map_dist m h s0"
    by (metis LeastI Least_le not_less_Least)
  have dc: "d < Map_cap m" using d(3) Map_dist_less [OF c, of h s0] by simp
  define s where "s = (h + d) mod Map_cap m"
  have s: "s < Map_cap m" unfolding s_def using c by simp
  have "Map_dist m h s = d" unfolding s_def by (rule Map_dist_unique [OF h dc])
  with d(1,2) s show ?thesis unfolding P_def s_def by auto
qed

lemma Map_Put_existing:
  assumes "Map_inv m" "s < Map_cap m" "Map_key_at m s = key" "key \<noteq> FREE_KEY"
  shows "Map_Put m key val = Some (Inr (m\<lparr>m_data := (m_data m)[Suc (2 * s) := val]\<rparr>))"
proof -
  from assms(1) have sh: "Map_shape m" and di: "Map_keys_distinct m" and ch: "Map_chain m"
    unfolding Map_inv_def by simp_all
  have h: "Map_home m key < Map_cap m" by (rule Map_home_less [OF sh])
  have "Map_Put m key val =
        Map_Put_loop m key val (word_of_nat (2 * ((Map_home m key + Map_dist m (Map_home m key) s) mod Map_cap m)))
          (Map_key_at m ((Map_home m key + Map_dist m (Map_home m key) s) mod Map_cap m))"
    unfolding Map_Put_start [OF sh assms(4)]
    by (rule Map_Put_loop_skip [OF sh h Map_path_to_key [OF sh di ch assms(2,3,4)]])
  also have "\<dots> = Map_Put_loop m key val (word_of_nat (2 * s)) key"
    unfolding Map_dist_reach [OF h assms(2)] assms(3) ..
  also have "\<dots> = Some (Inr (m\<lparr>m_data := (m_data m)[Suc (2 * s) := val]\<rparr>))"
    using assms(4) Map_slot_unat1 [OF sh assms(2)] Map_length [OF sh] assms(2)
    by (subst Map_Put_loop.simps) simp
  finally show ?thesis .
qed

lemma Map_Put_new:
  assumes "Map_inv m" "key \<noteq> FREE_KEY" "\<forall>i<Map_cap m. Map_key_at m i \<noteq> key"
  shows "\<exists>s<Map_cap m. Map_key_at m s = FREE_KEY \<and>
           (\<forall>j<Map_dist m (Map_home m key) s.
              Map_key_at m ((Map_home m key + j) mod Map_cap m) \<noteq> FREE_KEY) \<and>
           Map_Put m key val =
             (if m_threshold m \<le> m_size m
              then Map_rehash_with Map_Put (m\<lparr>m_data := (m_data m)[2 * s := key, Suc (2 * s) := val]\<rparr>)
              else Some (Inr (m\<lparr>m_data := (m_data m)[2 * s := key, Suc (2 * s) := val],
                                m_size := m_size m + 1\<rparr>)))"
proof -
  from assms(1) have sh: "Map_shape m" unfolding Map_inv_def by simp
  have c: "0 < Map_cap m" by (rule Map_cap_pos [OF sh])
  have h: "Map_home m key < Map_cap m" by (rule Map_home_less [OF sh])
  from Map_probe_free [OF assms(1) h]
  obtain s where s: "s < Map_cap m" "Map_key_at m s = FREE_KEY"
    "\<forall>j<Map_dist m (Map_home m key) s.
       Map_key_at m ((Map_home m key + j) mod Map_cap m) \<noteq> FREE_KEY"
    by blast
  have path: "\<forall>j<Map_dist m (Map_home m key) s.
       Map_key_at m ((Map_home m key + j) mod Map_cap m) \<noteq> FREE_KEY \<and>
       Map_key_at m ((Map_home m key + j) mod Map_cap m) \<noteq> key"
    using s(3) assms(3) c by simp
  have "Map_Put m key val =
        Map_Put_loop m key val (word_of_nat (2 * ((Map_home m key + Map_dist m (Map_home m key) s) mod Map_cap m)))
          (Map_key_at m ((Map_home m key + Map_dist m (Map_home m key) s) mod Map_cap m))"
    unfolding Map_Put_start [OF sh assms(2)]
    by (rule Map_Put_loop_skip [OF sh h path])
  also have "\<dots> = Map_Put_loop m key val (word_of_nat (2 * s)) FREE_KEY"
    unfolding Map_dist_reach [OF h s(1)] s(2) ..
  also have "\<dots> =
     (if m_threshold m \<le> m_size m
      then Map_rehash_with Map_Put (m\<lparr>m_data := (m_data m)[2 * s := key, Suc (2 * s) := val]\<rparr>)
      else Some (Inr (m\<lparr>m_data := (m_data m)[2 * s := key, Suc (2 * s) := val],
                        m_size := m_size m + 1\<rparr>)))"
    apply (subst Map_Put_loop.simps)
    apply (unfold Map_Put_body)
    using Map_slot_unat1 [OF sh s(1)] Map_slot_unat [OF sh s(1)] Map_length [OF sh] s(1)
    apply (simp add: Let_def)
    done
  finally show ?thesis using s by blast
qed

lemma odd_even_neq: "Suc (2 * s) \<noteq> 2 * (i::nat)" "2 * i \<noteq> Suc (2 * s)"
  by presburger+

subsection \<open>Overwriting the value of a stored key\<close>

lemma Map_set_val_key_at:
  "Map_key_at (m\<lparr>m_data := (m_data m)[Suc (2 * s) := val]\<rparr>) = Map_key_at m"
  by (rule ext) (simp add: Map_key_at_def odd_even_neq)

lemma Map_set_val_cap: "Map_cap (m\<lparr>m_data := (m_data m)[Suc (2 * s) := val]\<rparr>) = Map_cap m"
  by (simp add: Map_cap_def)

lemma Map_set_val_home: "Map_home (m\<lparr>m_data := d\<rparr>) = Map_home m"
  by (rule ext) (simp add: Map_home_def)

lemma Map_set_val_val_at:
  assumes "Map_shape m" "s < Map_cap m"
  shows "Map_val_at (m\<lparr>m_data := (m_data m)[Suc (2 * s) := val]\<rparr>) i =
         (if i = s then val else Map_val_at m i)"
  using assms(2) Map_length [OF assms(1)]
  by (simp add: Map_val_at_def nth_list_update)

lemma Map_set_val_shape:
  "Map_shape (m\<lparr>m_data := (m_data m)[Suc (2 * s) := val]\<rparr>) = Map_shape m"
  by (simp add: Map_shape_def)

lemma Map_set_val_distinct:
  "Map_keys_distinct (m\<lparr>m_data := (m_data m)[Suc (2 * s) := val]\<rparr>) = Map_keys_distinct m"
  unfolding Map_keys_distinct_def Map_set_val_key_at Map_set_val_cap ..

lemma Map_set_val_chain:
  "Map_chain (m\<lparr>m_data := (m_data m)[Suc (2 * s) := val]\<rparr>) = Map_chain m"
  unfolding Map_chain_def Map_dist_def Map_set_val_key_at Map_set_val_cap Map_set_val_home ..

lemma Map_set_val_count:
  "Map_count (m\<lparr>m_data := (m_data m)[Suc (2 * s) := val]\<rparr>) = Map_count m"
  unfolding Map_count_def Map_set_val_key_at Map_set_val_cap ..

lemma Map_set_val_inv:
  "Map_inv (m\<lparr>m_data := (m_data m)[Suc (2 * s) := val]\<rparr>) = Map_inv m"
  unfolding Map_inv_def Map_set_val_shape Map_set_val_distinct Map_set_val_chain
    Map_set_val_count Map_set_val_cap
  by simp

lemma Map_set_val_holds:
  assumes "Map_inv m" "s < Map_cap m" "Map_key_at m s = key" "key \<noteq> FREE_KEY"
  shows "Map_holds (m\<lparr>m_data := (m_data m)[Suc (2 * s) := val]\<rparr>) k v \<longleftrightarrow>
         (if k = key then v = val else Map_holds m k v)"
proof -
  from assms(1) have sh: "Map_shape m" and di: "Map_keys_distinct m"
    unfolding Map_inv_def by simp_all
  have uniq: "i = s" if "i < Map_cap m" "Map_key_at m i = key" for i
    using di [unfolded Map_keys_distinct_def, rule_format, of i s] that assms(2,3,4) by simp
  note va = Map_set_val_val_at [OF sh assms(2)]
  show ?thesis
  proof (cases "k = FREE_KEY")
    case True
    with assms(4) show ?thesis by (simp add: Map_holds_def)
  next
    case nz: False
    show ?thesis
    proof (cases "k = key")
      case True
      have "(\<exists>i\<in>{..<Map_cap m}. Map_key_at m i = key \<and>
              Map_val_at (m\<lparr>m_data := (m_data m)[Suc (2 * s) := val]\<rparr>) i = v) \<longleftrightarrow> v = val"
      proof
        assume "\<exists>i\<in>{..<Map_cap m}. Map_key_at m i = key \<and>
              Map_val_at (m\<lparr>m_data := (m_data m)[Suc (2 * s) := val]\<rparr>) i = v"
        then obtain i where i: "i < Map_cap m" "Map_key_at m i = key"
          "Map_val_at (m\<lparr>m_data := (m_data m)[Suc (2 * s) := val]\<rparr>) i = v" by blast
        from uniq [OF i(1,2)] i(3) show "v = val" by (simp add: va)
      next
        assume "v = val"
        hence "Map_val_at (m\<lparr>m_data := (m_data m)[Suc (2 * s) := val]\<rparr>) s = v"
          by (simp add: va)
        with assms(2,3) show "\<exists>i\<in>{..<Map_cap m}. Map_key_at m i = key \<and>
              Map_val_at (m\<lparr>m_data := (m_data m)[Suc (2 * s) := val]\<rparr>) i = v" by blast
      qed
      with True nz show ?thesis
        unfolding Map_holds_def Map_set_val_key_at Map_set_val_cap by (simp only: if_True if_False simp_thms)
    next
      case False
      have "Map_val_at (m\<lparr>m_data := (m_data m)[Suc (2 * s) := val]\<rparr>) i = Map_val_at m i"
        if "Map_key_at m i = k" for i
        using that False assms(3) by (cases "i = s") (simp_all add: va)
      hence "(\<exists>i\<in>{..<Map_cap m}. Map_key_at m i = k \<and>
              Map_val_at (m\<lparr>m_data := (m_data m)[Suc (2 * s) := val]\<rparr>) i = v) \<longleftrightarrow>
            (\<exists>i\<in>{..<Map_cap m}. Map_key_at m i = k \<and> Map_val_at m i = v)"
        by metis
      with False nz show ?thesis
        unfolding Map_holds_def Map_set_val_key_at Map_set_val_cap by (simp only: if_False simp_thms)
    qed
  qed
qed

subsection \<open>Writing a new key into a free slot\<close>

lemma Map_ins_key_at:
  assumes "Map_shape m" "s < Map_cap m"
  shows "Map_key_at (m\<lparr>m_data := (m_data m)[2 * s := key, Suc (2 * s) := val]\<rparr>) =
         (Map_key_at m)(s := key)"
  using assms(2) Map_length [OF assms(1)]
  by (intro ext) (simp add: Map_key_at_def odd_even_neq nth_list_update)

lemma Map_ins_val_at:
  assumes "Map_shape m" "s < Map_cap m"
  shows "Map_val_at (m\<lparr>m_data := (m_data m)[2 * s := key, Suc (2 * s) := val]\<rparr>) i =
         (if i = s then val else Map_val_at m i)"
  using assms(2) Map_length [OF assms(1)]
  by (simp add: Map_val_at_def nth_list_update)

lemma Map_ins_cap:
  "Map_cap (m\<lparr>m_data := (m_data m)[2 * s := key, Suc (2 * s) := val]\<rparr>) = Map_cap m"
  by (simp add: Map_cap_def)

lemma Map_ins_shape:
  "Map_shape (m\<lparr>m_data := (m_data m)[2 * s := key, Suc (2 * s) := val]\<rparr>) = Map_shape m"
  by (simp add: Map_shape_def)

lemma Map_ins_distinct:
  assumes "Map_shape m" "Map_keys_distinct m" "s < Map_cap m"
    and "\<forall>i<Map_cap m. Map_key_at m i \<noteq> key"
  shows "Map_keys_distinct (m\<lparr>m_data := (m_data m)[2 * s := key, Suc (2 * s) := val]\<rparr>)"
  using assms(2,4)
  unfolding Map_keys_distinct_def Map_ins_key_at [OF assms(1,3)] Map_ins_cap
  by (auto simp: fun_upd_def)

lemma Map_ins_count:
  assumes "Map_shape m" "s < Map_cap m" "Map_key_at m s = FREE_KEY" "key \<noteq> FREE_KEY"
  shows "Map_count (m\<lparr>m_data := (m_data m)[2 * s := key, Suc (2 * s) := val]\<rparr>) = Suc (Map_count m)"
proof -
  have "{i\<in>{..<Map_cap m}. ((Map_key_at m)(s := key)) i \<noteq> FREE_KEY} =
        insert s {i\<in>{..<Map_cap m}. Map_key_at m i \<noteq> FREE_KEY}"
    using assms(2,4) by auto
  moreover have "s \<notin> {i\<in>{..<Map_cap m}. Map_key_at m i \<noteq> FREE_KEY}"
    using assms(3) by simp
  ultimately show ?thesis
    unfolding Map_count_def Map_ins_key_at [OF assms(1,2)] Map_ins_cap
    by simp
qed

lemma Map_ins_chain:
  assumes "Map_shape m" "Map_chain m" "s < Map_cap m" "key \<noteq> FREE_KEY"
    and "Map_key_at m s = FREE_KEY"
    and "\<forall>j<Map_dist m (Map_home m key) s.
           Map_key_at m ((Map_home m key + j) mod Map_cap m) \<noteq> FREE_KEY"
  shows "Map_chain (m\<lparr>m_data := (m_data m)[2 * s := key, Suc (2 * s) := val]\<rparr>)"
  unfolding Map_chain_def Map_ins_key_at [OF assms(1,3)] Map_ins_cap Map_dist_def
    Map_set_val_home
proof (intro ballI impI)
  fix i d
  assume i: "i \<in> {..<Map_cap m}" and k: "((Map_key_at m)(s := key)) i \<noteq> FREE_KEY"
    and d: "d \<in> {..<(i + Map_cap m - Map_home m (((Map_key_at m)(s := key)) i)) mod Map_cap m}"
  show "((Map_key_at m)(s := key)) ((Map_home m (((Map_key_at m)(s := key)) i) + d) mod Map_cap m)
          \<noteq> FREE_KEY"
  proof (cases "i = s")
    case True
    with d have "d < Map_dist m (Map_home m key) s" by (simp add: Map_dist_def)
    with assms(6) have "Map_key_at m ((Map_home m key + d) mod Map_cap m) \<noteq> FREE_KEY" by simp
    with True assms(4) show ?thesis by simp
  next
    case False
    with k have k': "Map_key_at m i \<noteq> FREE_KEY" by simp
    from False d have "d < Map_dist m (Map_home m (Map_key_at m i)) i" by (simp add: Map_dist_def)
    with assms(2) [unfolded Map_chain_def, rule_format, OF i k']
    have "Map_key_at m ((Map_home m (Map_key_at m i) + d) mod Map_cap m) \<noteq> FREE_KEY" by simp
    with False assms(4) show ?thesis by simp
  qed
qed

lemma Map_ins_holds:
  assumes "Map_shape m" "s < Map_cap m" "Map_key_at m s = FREE_KEY" "key \<noteq> FREE_KEY"
    and "\<forall>i<Map_cap m. Map_key_at m i \<noteq> key"
  shows "Map_holds (m\<lparr>m_data := (m_data m)[2 * s := key, Suc (2 * s) := val]\<rparr>) k v \<longleftrightarrow>
         (if k = key then v = val else Map_holds m k v)"
proof -
  note va = Map_ins_val_at [OF assms(1,2)]
  note ka = Map_ins_key_at [OF assms(1,2)]
  show ?thesis
  proof (cases "k = FREE_KEY")
    case True
    with assms(4) show ?thesis by (simp add: Map_holds_def)
  next
    case nz: False
    show ?thesis
    proof (cases "k = key")
      case True
      have "(\<exists>i\<in>{..<Map_cap m}. ((Map_key_at m)(s := key)) i = key \<and>
              Map_val_at (m\<lparr>m_data := (m_data m)[2 * s := key, Suc (2 * s) := val]\<rparr>) i = v)
            \<longleftrightarrow> v = val"
      proof
        assume "\<exists>i\<in>{..<Map_cap m}. ((Map_key_at m)(s := key)) i = key \<and>
              Map_val_at (m\<lparr>m_data := (m_data m)[2 * s := key, Suc (2 * s) := val]\<rparr>) i = v"
        then obtain i where i: "i < Map_cap m" "((Map_key_at m)(s := key)) i = key"
          "Map_val_at (m\<lparr>m_data := (m_data m)[2 * s := key, Suc (2 * s) := val]\<rparr>) i = v"
          by blast
        from i(1,2) assms(5) have "i = s" by (cases "i = s") simp_all
        with i(3) show "v = val" by (simp add: va)
      next
        assume "v = val"
        hence "Map_val_at (m\<lparr>m_data := (m_data m)[2 * s := key, Suc (2 * s) := val]\<rparr>) s = v"
          by (simp add: va)
        moreover have "((Map_key_at m)(s := key)) s = key" by simp
        ultimately show "\<exists>i\<in>{..<Map_cap m}. ((Map_key_at m)(s := key)) i = key \<and>
              Map_val_at (m\<lparr>m_data := (m_data m)[2 * s := key, Suc (2 * s) := val]\<rparr>) i = v"
          using assms(2) by blast
      qed
      with True nz show ?thesis
        unfolding Map_holds_def ka Map_ins_cap by (simp only: if_True if_False simp_thms)
    next
      case False
      have "((Map_key_at m)(s := key)) i = k \<and>
            Map_val_at (m\<lparr>m_data := (m_data m)[2 * s := key, Suc (2 * s) := val]\<rparr>) i = v \<longleftrightarrow>
            Map_key_at m i = k \<and> Map_val_at m i = v" for i
        using False nz assms(3) by (cases "i = s") (auto simp: va)
      with False nz show ?thesis
        unfolding Map_holds_def ka Map_ins_cap by (simp only: if_False simp_thms)
    qed
  qed
qed

lemma Map_invD:
  assumes "Map_inv m"
  shows "Map_shape m" "Map_keys_distinct m" "Map_chain m"
    "m_size m = int (Map_count m) + (if m_hasFreeKey m then 1 else 0)"
    "int (Map_count m) \<le> m_threshold m" "2 \<le> m_threshold m"
    "m_threshold m = \<lfloor>real (Map_cap m) * m_fillFactor m\<rfloor>"
    "1 / 2 \<le> m_fillFactor m" "m_fillFactor m < 1"
  using assms unfolding Map_inv_def by blast+

lemma Map_holds_size: "Map_holds (m\<lparr>m_size := n\<rparr>) = Map_holds m"
  by (intro ext) (simp add: Map_holds_def Map_cap_def Map_key_at_def Map_val_at_def)

lemma Map_inv_size:
  "Map_inv (m\<lparr>m_size := n\<rparr>) \<longleftrightarrow>
   Map_shape m \<and> Map_keys_distinct m \<and> Map_chain m \<and>
   n = int (Map_count m) + (if m_hasFreeKey m then 1 else 0) \<and>
   int (Map_count m) \<le> m_threshold m \<and> 2 \<le> m_threshold m \<and>
   m_threshold m = \<lfloor>real (Map_cap m) * m_fillFactor m\<rfloor> \<and>
   1 / 2 \<le> m_fillFactor m \<and> m_fillFactor m < 1"
proof -
  have "Map_key_at (m\<lparr>m_size := n\<rparr>) = Map_key_at m"
    by (intro ext) (simp add: Map_key_at_def)
  moreover have "Map_cap (m\<lparr>m_size := n\<rparr>) = Map_cap m"
    by (simp add: Map_cap_def)
  moreover have "Map_home (m\<lparr>m_size := n\<rparr>) = Map_home m"
    by (intro ext) (simp add: Map_home_def)
  ultimately have "Map_shape (m\<lparr>m_size := n\<rparr>) = Map_shape m"
    "Map_keys_distinct (m\<lparr>m_size := n\<rparr>) = Map_keys_distinct m"
    "Map_chain (m\<lparr>m_size := n\<rparr>) = Map_chain m"
    "Map_count (m\<lparr>m_size := n\<rparr>) = Map_count m"
    "Map_cap (m\<lparr>m_size := n\<rparr>) = Map_cap m"
    unfolding Map_shape_def Map_keys_distinct_def Map_chain_def Map_count_def Map_dist_def
    by simp_all
  thus ?thesis unfolding Map_inv_def by simp
qed

lemma Map_ins_inv:
  assumes "Map_inv m" "s < Map_cap m" "Map_key_at m s = FREE_KEY" "key \<noteq> FREE_KEY"
    and "\<forall>i<Map_cap m. Map_key_at m i \<noteq> key"
    and "\<forall>j<Map_dist m (Map_home m key) s.
           Map_key_at m ((Map_home m key + j) mod Map_cap m) \<noteq> FREE_KEY"
    and "m_size m < m_threshold m"
  shows "Map_inv (m\<lparr>m_data := (m_data m)[2 * s := key, Suc (2 * s) := val],
                    m_size := m_size m + 1\<rparr>)"
proof -
  note sh = Map_invD(1) [OF assms(1)] and di = Map_invD(2) [OF assms(1)]
    and ch = Map_invD(3) [OF assms(1)] and sz = Map_invD(4) [OF assms(1)]
    and rest = Map_invD(6-9) [OF assms(1)]
  have le: "int (Suc (Map_count m)) \<le> m_threshold m"
    using sz assms(7) by (simp split: if_splits)
  have sz': "m_size m + 1 = int (Suc (Map_count m)) + (if m_hasFreeKey m then 1 else 0)"
    using sz by simp
  have fields:
    "m_hasFreeKey (m\<lparr>m_data := (m_data m)[2 * s := key, Suc (2 * s) := val]\<rparr>) = m_hasFreeKey m"
    "m_threshold (m\<lparr>m_data := (m_data m)[2 * s := key, Suc (2 * s) := val]\<rparr>) = m_threshold m"
    "m_fillFactor (m\<lparr>m_data := (m_data m)[2 * s := key, Suc (2 * s) := val]\<rparr>) = m_fillFactor m"
    by simp_all
  show ?thesis
    unfolding Map_inv_size Map_ins_shape Map_ins_cap fields
      Map_ins_count [OF sh assms(2,3,4)]
    using sh Map_ins_distinct [OF sh di assms(2,5)] Map_ins_chain [OF sh ch assms(2,4,3,6)]
      sz' le rest
    by blast
qed

lemma Map_Put_no_rehash:
  assumes "Map_inv m" "key \<noteq> FREE_KEY"
    and "(\<exists>i<Map_cap m. Map_key_at m i = key) \<or> m_size m < m_threshold m"
  shows "\<exists>m'. Map_Put m key val = Some (Inr m') \<and> Map_inv m' \<and> Map_same_table m m' \<and>
           m_size m' = m_size m + (if \<exists>i<Map_cap m. Map_key_at m i = key then 0 else 1) \<and>
           (\<forall>k v. Map_holds m' k v \<longleftrightarrow> (if k = key then v = val else Map_holds m k v))"
proof (cases "\<exists>i<Map_cap m. Map_key_at m i = key")
  case True
  then obtain s where s: "s < Map_cap m" "Map_key_at m s = key" by blast
  let ?m' = "m\<lparr>m_data := (m_data m)[Suc (2 * s) := val]\<rparr>"
  have "Map_Put m key val = Some (Inr ?m')"
    by (rule Map_Put_existing [OF assms(1) s assms(2)])
  moreover have "Map_inv ?m'" using assms(1) by (simp only: Map_set_val_inv)
  moreover have "Map_same_table m ?m'" by (simp add: Map_same_table_def Map_cap_def)
  moreover have "m_size ?m' = m_size m + (if \<exists>i<Map_cap m. Map_key_at m i = key then 0 else 1)"
    using True by simp
  moreover have "\<forall>k v. Map_holds ?m' k v \<longleftrightarrow> (if k = key then v = val else Map_holds m k v)"
    using Map_set_val_holds [OF assms(1) s assms(2)] by blast
  ultimately show ?thesis by blast
next
  case False
  hence absent: "\<forall>i<Map_cap m. Map_key_at m i \<noteq> key" by blast
  from False assms(3) have lt: "m_size m < m_threshold m" by blast
  from Map_Put_new [OF assms(1,2) absent, of val]
  obtain s where s: "s < Map_cap m" "Map_key_at m s = FREE_KEY"
    "\<forall>j<Map_dist m (Map_home m key) s.
       Map_key_at m ((Map_home m key + j) mod Map_cap m) \<noteq> FREE_KEY"
    and put: "Map_Put m key val =
       (if m_threshold m \<le> m_size m
        then Map_rehash_with Map_Put (m\<lparr>m_data := (m_data m)[2 * s := key, Suc (2 * s) := val]\<rparr>)
        else Some (Inr (m\<lparr>m_data := (m_data m)[2 * s := key, Suc (2 * s) := val],
                          m_size := m_size m + 1\<rparr>)))"
    by blast
  let ?m1 = "m\<lparr>m_data := (m_data m)[2 * s := key, Suc (2 * s) := val]\<rparr>"
  let ?m' = "m\<lparr>m_data := (m_data m)[2 * s := key, Suc (2 * s) := val], m_size := m_size m + 1\<rparr>"
  have "Map_Put m key val = Some (Inr ?m')" using put lt by simp
  moreover have "Map_inv ?m'" by (rule Map_ins_inv [OF assms(1) s(1,2) assms(2) absent s(3) lt])
  moreover have "Map_same_table m ?m'" by (simp add: Map_same_table_def Map_cap_def)
  moreover have "m_size ?m' = m_size m + (if \<exists>i<Map_cap m. Map_key_at m i = key then 0 else 1)"
    using False by simp
  moreover have "\<forall>k v. Map_holds ?m' k v \<longleftrightarrow> (if k = key then v = val else Map_holds m k v)"
    using Map_ins_holds [OF Map_invD(1) [OF assms(1)] s(1,2) assms(2) absent]
      Map_holds_size [of "m_size m + 1" ?m1]
    by simp
  ultimately show ?thesis by blast
qed

lemma Map_Put_free_key:
  assumes "Map_inv m"
  shows "\<exists>m'. Map_Put m FREE_KEY val = Some (Inr m') \<and> Map_inv m' \<and>
           m_size m \<le> m_size m' \<and> m_size m' \<le> m_size m + 1 \<and>
           (\<forall>k v. Map_holds m' k v \<longleftrightarrow> (if k = FREE_KEY then v = val else Map_holds m k v))"
proof -
  let ?m' = "m\<lparr>m_freeVal := val,
                m_size := (if \<not> m_hasFreeKey m then m_size m + 1 else m_size m),
                m_hasFreeKey := True\<rparr>"
  have put: "Map_Put m FREE_KEY val = Some (Inr ?m')" by (simp add: Map_Put_def)
  have k: "Map_key_at ?m' = Map_key_at m" by (intro ext) (simp add: Map_key_at_def)
  have v: "Map_val_at ?m' = Map_val_at m" by (intro ext) (simp add: Map_val_at_def)
  have c: "Map_cap ?m' = Map_cap m" by (simp add: Map_cap_def)
  have h: "Map_home ?m' = Map_home m" by (intro ext) (simp add: Map_home_def)
  have parts: "Map_shape ?m' = Map_shape m" "Map_keys_distinct ?m' = Map_keys_distinct m"
    "Map_chain ?m' = Map_chain m" "Map_count ?m' = Map_count m"
    unfolding Map_shape_def Map_keys_distinct_def Map_chain_def Map_count_def Map_dist_def k c h
    by simp_all
  have fields: "m_hasFreeKey ?m' = True" "m_threshold ?m' = m_threshold m"
    "m_fillFactor ?m' = m_fillFactor m"
    "m_size ?m' = (if \<not> m_hasFreeKey m then m_size m + 1 else m_size m)"
    by simp_all
  have sz: "(if \<not> m_hasFreeKey m then m_size m + 1 else m_size m) =
            int (Map_count m) + (if True then 1 else 0)"
    using Map_invD(4) [OF assms] by simp
  have inv: "Map_inv ?m'"
    unfolding Map_inv_def parts c fields
    using Map_invD [OF assms] sz by blast
  have holds: "\<forall>k v. Map_holds ?m' k v \<longleftrightarrow> (if k = FREE_KEY then v = val else Map_holds m k v)"
    unfolding Map_holds_def k v c by auto
  have "m_size m \<le> m_size ?m'" "m_size ?m' \<le> m_size m + 1" by simp_all
  with put inv holds show ?thesis by blast
qed

lemma Map_same_table_refl: "Map_same_table m m"
  by (simp add: Map_same_table_def)

lemma Map_same_table_trans: "Map_same_table a b \<Longrightarrow> Map_same_table b c \<Longrightarrow> Map_same_table a c"
  by (simp add: Map_same_table_def)

lemma Map_holds_stored:
  assumes "i < Map_cap m" "Map_key_at m i \<noteq> FREE_KEY"
  shows "Map_holds m (Map_key_at m i) (Map_val_at m i)"
  using assms unfolding Map_holds_def by auto

lemma Map_rehash_loop_correct:
  assumes len: "length old = 2 * co"
    and dist: "\<forall>a<co. \<forall>b<co. old ! (2 * a) = old ! (2 * b) \<and> old ! (2 * a) \<noteq> FREE_KEY \<longrightarrow> a = b"
  shows "j \<le> co \<Longrightarrow> Map_inv m \<Longrightarrow>
     (\<forall>k v. k \<noteq> FREE_KEY \<longrightarrow>
        (Map_holds m k v \<longleftrightarrow> (\<exists>a<j. old ! (2 * a) = k \<and> old ! Suc (2 * a) = v))) \<Longrightarrow>
     Map_count m = card {a. a < j \<and> old ! (2 * a) \<noteq> FREE_KEY} \<Longrightarrow>
     int (card {a. a < co \<and> old ! (2 * a) \<noteq> FREE_KEY}) + (if m_hasFreeKey m then 1 else 0)
       \<le> m_threshold m \<Longrightarrow>
     \<exists>m'. Map_rehash_loop Map_Put old (2 * j) m = Some (Inr m') \<and> Map_inv m' \<and>
       Map_same_table m m' \<and>
       (\<forall>k v. k \<noteq> FREE_KEY \<longrightarrow>
          (Map_holds m' k v \<longleftrightarrow> (\<exists>a<co. old ! (2 * a) = k \<and> old ! Suc (2 * a) = v))) \<and>
       Map_count m' = card {a. a < co \<and> old ! (2 * a) \<noteq> FREE_KEY}"
proof (induction "co - j" arbitrary: j m)
  case 0
  hence j: "j = co" by simp
  have "Map_rehash_loop Map_Put old (2 * j) m = Some (Inr m)"
    unfolding j by (subst Map_rehash_loop.simps) (simp add: len)
  with 0 j Map_same_table_refl show ?case by blast
next
  case (Suc n)
  hence j: "j < co" by simp
  have i: "2 * j < length old" "2 * j + 1 < length old" using j len by simp_all
  have set_Suc: "{a. a < Suc j \<and> old ! (2 * a) \<noteq> FREE_KEY} =
      (if old ! (2 * j) \<noteq> FREE_KEY then insert j {a. a < j \<and> old ! (2 * a) \<noteq> FREE_KEY}
       else {a. a < j \<and> old ! (2 * a) \<noteq> FREE_KEY})"
    by (auto simp: less_Suc_eq)
  show ?case
  proof (cases "old ! (2 * j) = FREE_KEY")
    case True
    have step: "Map_rehash_loop Map_Put old (2 * j) m = Map_rehash_loop Map_Put old (2 * Suc j) m"
      using i True by (subst Map_rehash_loop.simps) simp
    have h: "\<forall>k v. k \<noteq> FREE_KEY \<longrightarrow>
        (Map_holds m k v \<longleftrightarrow> (\<exists>a<Suc j. old ! (2 * a) = k \<and> old ! Suc (2 * a) = v))"
      using Suc.prems(3) True by (auto simp: less_Suc_eq)
    have c: "Map_count m = card {a. a < Suc j \<and> old ! (2 * a) \<noteq> FREE_KEY}"
      using Suc.prems(4) True unfolding set_Suc by simp
    have "n = co - Suc j" "Suc j \<le> co" using Suc.hyps(2) j by simp_all
    from Suc.hyps(1) [OF this Suc.prems(2) h c Suc.prems(5)]
    show ?thesis unfolding step .
  next
    case False
    let ?k = "old ! (2 * j)"
    let ?v = "old ! Suc (2 * j)"
    have absent: "\<not> (\<exists>i<Map_cap m. Map_key_at m i = ?k)"
    proof
      assume "\<exists>i<Map_cap m. Map_key_at m i = ?k"
      then obtain i where "i < Map_cap m" "Map_key_at m i = ?k" by blast
      with False Map_holds_stored [of i m] have "Map_holds m ?k (Map_val_at m i)" by simp
      with Suc.prems(3) False obtain a where "a < j" "old ! (2 * a) = ?k" by blast
      with dist [rule_format, of a j] j False show False by simp
    qed
    have fin: "finite {a. a < co \<and> old ! (2 * a) \<noteq> FREE_KEY}" by simp
    have "{a. a < j \<and> old ! (2 * a) \<noteq> FREE_KEY} \<subset> {a. a < co \<and> old ! (2 * a) \<noteq> FREE_KEY}"
      using j False by auto
    from psubset_card_mono [OF fin this] Suc.prems(4,5) Map_invD(4) [OF Suc.prems(2)]
    have lt: "m_size m < m_threshold m" by simp
    from Map_Put_no_rehash [OF Suc.prems(2) False, of ?v] lt absent
    obtain m1 where m1: "Map_Put m ?k ?v = Some (Inr m1)" "Map_inv m1" "Map_same_table m m1"
      "m_size m1 = m_size m + 1"
      "\<forall>k v. Map_holds m1 k v \<longleftrightarrow> (if k = ?k then v = ?v else Map_holds m k v)"
      by auto
    have step: "Map_rehash_loop Map_Put old (2 * j) m = Map_rehash_loop Map_Put old (2 * Suc j) m1"
      using i False m1(1) by (subst Map_rehash_loop.simps) simp
    have h: "\<forall>k v. k \<noteq> FREE_KEY \<longrightarrow>
        (Map_holds m1 k v \<longleftrightarrow> (\<exists>a<Suc j. old ! (2 * a) = k \<and> old ! Suc (2 * a) = v))"
    proof (intro allI impI)
      fix k v assume k: "k \<noteq> FREE_KEY"
      show "Map_holds m1 k v \<longleftrightarrow> (\<exists>a<Suc j. old ! (2 * a) = k \<and> old ! Suc (2 * a) = v)"
      proof (cases "k = ?k")
        case True
        have "(\<exists>a<Suc j. old ! (2 * a) = k \<and> old ! Suc (2 * a) = v) \<longleftrightarrow> v = ?v"
        proof
          assume "\<exists>a<Suc j. old ! (2 * a) = k \<and> old ! Suc (2 * a) = v"
          then obtain a where a: "a < Suc j" "old ! (2 * a) = k" "old ! Suc (2 * a) = v" by blast
          with dist [rule_format, of a j] j True k have "a = j" by simp
          with a(3) show "v = ?v" by simp
        next
          assume "v = ?v"
          with True show "\<exists>a<Suc j. old ! (2 * a) = k \<and> old ! Suc (2 * a) = v" by blast
        qed
        with m1(5) True show ?thesis by simp
      next
        case False
        hence "(\<exists>a<Suc j. old ! (2 * a) = k \<and> old ! Suc (2 * a) = v) \<longleftrightarrow>
               (\<exists>a<j. old ! (2 * a) = k \<and> old ! Suc (2 * a) = v)"
          by (auto simp: less_Suc_eq)
        with m1(5) False Suc.prems(3) k show ?thesis by simp
      qed
    qed
    have "int (Map_count m1) = int (Map_count m) + 1"
      using m1(4) Map_invD(4) [OF m1(2)] Map_invD(4) [OF Suc.prems(2)] m1(3)
      by (simp add: Map_same_table_def)
    hence c: "Map_count m1 = card {a. a < Suc j \<and> old ! (2 * a) \<noteq> FREE_KEY}"
      using Suc.prems(4) False unfolding set_Suc by simp
    have b: "int (card {a. a < co \<and> old ! (2 * a) \<noteq> FREE_KEY}) +
        (if m_hasFreeKey m1 then 1 else 0) \<le> m_threshold m1"
      using Suc.prems(5) m1(3) by (simp add: Map_same_table_def)
    have "n = co - Suc j" "Suc j \<le> co" using Suc.hyps(2) j by simp_all
    from Suc.hyps(1) [OF this m1(2) h c b]
    obtain m' where m': "Map_rehash_loop Map_Put old (2 * Suc j) m1 = Some (Inr m')"
      "Map_inv m'" "Map_same_table m1 m'"
      "\<forall>k v. k \<noteq> FREE_KEY \<longrightarrow>
          (Map_holds m' k v \<longleftrightarrow> (\<exists>a<co. old ! (2 * a) = k \<and> old ! Suc (2 * a) = v))"
      "Map_count m' = card {a. a < co \<and> old ! (2 * a) \<noteq> FREE_KEY}"
      by blast
    from m' Map_same_table_trans [OF m1(3) m'(3)] show ?thesis unfolding step by blast
  qed
qed

lemma Map_count_alt: "Map_count m = card {a. a < Map_cap m \<and> m_data m ! (2 * a) \<noteq> FREE_KEY}"
proof -
  have "{i\<in>{..<Map_cap m}. Map_key_at m i \<noteq> FREE_KEY} =
        {a. a < Map_cap m \<and> m_data m ! (2 * a) \<noteq> FREE_KEY}"
    by (auto simp: Map_key_at_def)
  thus ?thesis unfolding Map_count_def by simp
qed

lemma Map_rehash_correct:
  assumes sh: "Map_shape m" and cap: "Map_cap m < 2 ^ 61"
    and di: "Map_keys_distinct m"
    and f: "1 / 2 \<le> m_fillFactor m" "m_fillFactor m < 1"
    and t2: "2 \<le> \<lfloor>real (length (m_data m)) * m_fillFactor m\<rfloor>"
    and bound: "int (Map_count m) + (if m_hasFreeKey m then 1 else 0)
                  \<le> \<lfloor>real (length (m_data m)) * m_fillFactor m\<rfloor>"
  shows "\<exists>m'. Map_rehash_with Map_Put m = Some (Inr m') \<and> Map_inv m' \<and>
           (\<forall>k v. Map_holds m' k v \<longleftrightarrow> Map_holds m k v) \<and>
           m_size m' = int (Map_count m) + (if m_hasFreeKey m then 1 else 0)"
proof -
  from sh obtain e where e: "1 \<le> e" "e \<le> 62" "length (m_data m) = 2 * 2 ^ e"
    "Map_cap m = 2 ^ e" "m_mask m = mask e" "m_mask2 m = mask (Suc e)"
    by (rule Map_shapeE)
  have e61: "e < 61"
    using power_less_imp_less_exp [of "2::nat" e 61] cap unfolding e(4) by simp
  define m0 where "m0 = m\<lparr>m_threshold := \<lfloor>real (length (m_data m)) * m_fillFactor m\<rfloor>,
      m_mask := word_of_int (int (length (m_data m)) - 1),
      m_mask2 := word_of_int (int (length (m_data m) * 2) - 1),
      m_size := (if m_hasFreeKey m then 1 else 0),
      m_data := replicate (length (m_data m) * 2) 0\<rparr>"
  have rw: "Map_rehash_with Map_Put m = Map_rehash_loop Map_Put (m_data m) (2 * 0) m0"
    unfolding Map_rehash_with_def Let_def m0_def by simp
  have c0: "Map_cap m0 = 2 ^ Suc e" by (simp add: m0_def Map_cap_def e(3))
  have k0: "Map_key_at m0 i = FREE_KEY" if "i < Map_cap m0" for i
    using that unfolding c0 by (simp add: m0_def Map_key_at_def e(3) FREE_KEY_def)
  have sh0: "Map_shape m0"
    unfolding Map_shape_def
  proof (rule bexI [of _ "Suc e"])
    show "Suc e \<in> {1..62}" using e61 by simp
    show "length (m_data m0) = 2 * 2 ^ Suc e \<and> m_mask m0 = 2 ^ Suc e - 1 \<and>
          m_mask2 m0 = 2 ^ (Suc e + 1) - 1"
      by (simp add: m0_def e(3))
  qed
  have di0: "Map_keys_distinct m0" unfolding Map_keys_distinct_def using k0 by simp
  have ch0: "Map_chain m0" unfolding Map_chain_def using k0 by simp
  have "{i\<in>{..<Map_cap m0}. Map_key_at m0 i \<noteq> FREE_KEY} = {}" using k0 by auto
  hence n0: "Map_count m0 = 0" unfolding Map_count_def by simp
  have fields: "m_size m0 = (if m_hasFreeKey m then 1 else 0)" "m_hasFreeKey m0 = m_hasFreeKey m"
    "m_threshold m0 = \<lfloor>real (length (m_data m)) * m_fillFactor m\<rfloor>"
    "m_fillFactor m0 = m_fillFactor m" "m_freeVal m0 = m_freeVal m"
    by (simp_all add: m0_def)
  have len0: "real (Map_cap m0) = real (length (m_data m))" unfolding c0 e(3) by simp
  have inv0: "Map_inv m0"
    unfolding Map_inv_def n0 fields len0
    using sh0 di0 ch0 f t2 by simp
  have h0: "\<forall>k v. k \<noteq> FREE_KEY \<longrightarrow>
      (Map_holds m0 k v \<longleftrightarrow> (\<exists>a<0. m_data m ! (2 * a) = k \<and> m_data m ! Suc (2 * a) = v))"
    unfolding Map_holds_def using k0 by auto
  have cnt0: "Map_count m0 = card {a. a < 0 \<and> m_data m ! (2 * a) \<noteq> FREE_KEY}"
    unfolding n0 by simp
  have len: "length (m_data m) = 2 * Map_cap m" by (rule Map_length [OF sh])
  have dist: "\<forall>a<Map_cap m. \<forall>b<Map_cap m.
      m_data m ! (2 * a) = m_data m ! (2 * b) \<and> m_data m ! (2 * a) \<noteq> FREE_KEY \<longrightarrow> a = b"
    using di unfolding Map_keys_distinct_def Map_key_at_def by blast
  have b0: "int (card {a. a < Map_cap m \<and> m_data m ! (2 * a) \<noteq> FREE_KEY}) +
      (if m_hasFreeKey m0 then 1 else 0) \<le> m_threshold m0"
    unfolding fields using bound unfolding Map_count_alt .
  from Map_rehash_loop_correct [OF len dist _ inv0 h0 cnt0 b0]
  obtain m' where m': "Map_rehash_loop Map_Put (m_data m) (2 * 0) m0 = Some (Inr m')"
    "Map_inv m'" "Map_same_table m0 m'"
    "\<forall>k v. k \<noteq> FREE_KEY \<longrightarrow>
       (Map_holds m' k v \<longleftrightarrow>
        (\<exists>a<Map_cap m. m_data m ! (2 * a) = k \<and> m_data m ! Suc (2 * a) = v))"
    "Map_count m' = card {a. a < Map_cap m \<and> m_data m ! (2 * a) \<noteq> FREE_KEY}"
    by blast
  have free: "m_hasFreeKey m' = m_hasFreeKey m" "m_freeVal m' = m_freeVal m"
    using m'(3) fields by (simp_all add: Map_same_table_def)
  have holds: "Map_holds m' k v \<longleftrightarrow> Map_holds m k v" for k v
  proof (cases "k = FREE_KEY")
    case True
    then show ?thesis by (simp add: Map_holds_def free)
  next
    case False
    have "Map_holds m k v \<longleftrightarrow>
        (\<exists>a<Map_cap m. m_data m ! (2 * a) = k \<and> m_data m ! Suc (2 * a) = v)"
      using False by (auto simp: Map_holds_def Map_key_at_def Map_val_at_def)
    with m'(4) False show ?thesis by simp
  qed
  have "m_size m' = int (Map_count m) + (if m_hasFreeKey m then 1 else 0)"
    using Map_invD(4) [OF m'(2)] m'(5) free by (simp add: Map_count_alt)
  with m'(1,2) holds rw show ?thesis by simp
qed

lemma floor_double: "2 * \<lfloor>x :: real\<rfloor> \<le> \<lfloor>2 * x\<rfloor>"
proof -
  have "of_int (2 * \<lfloor>x\<rfloor>) \<le> 2 * x" by simp
  thus ?thesis by (simp only: le_floor_iff)
qed

lemma Map_Put_correct:
  assumes inv: "Map_inv m" and small: "m_size m < 2 ^ 60"
  shows "\<exists>m'. Map_Put m key val = Some (Inr m') \<and> Map_inv m' \<and>
           m_size m \<le> m_size m' \<and> m_size m' \<le> m_size m + 1 \<and>
           (\<forall>k v. Map_holds m' k v \<longleftrightarrow> (if k = key then v = val else Map_holds m k v))"
proof (cases "key = FREE_KEY")
  case True
  with Map_Put_free_key [OF inv, of val] show ?thesis by simp
next
  case nz: False
  show ?thesis
  proof (cases "(\<exists>i<Map_cap m. Map_key_at m i = key) \<or> m_size m < m_threshold m")
    case True
    from Map_Put_no_rehash [OF inv nz True, of val]
    obtain m' where m': "Map_Put m key val = Some (Inr m')" "Map_inv m'"
      "m_size m' = m_size m + (if \<exists>i<Map_cap m. Map_key_at m i = key then 0 else 1)"
      "\<forall>k v. Map_holds m' k v \<longleftrightarrow> (if k = key then v = val else Map_holds m k v)"
      by blast
    from m'(3) have "m_size m \<le> m_size m'" "m_size m' \<le> m_size m + 1" by simp_all
    with m'(1,2,4) show ?thesis by blast
  next
    case False
    hence absent: "\<forall>i<Map_cap m. Map_key_at m i \<noteq> key" and full: "m_threshold m \<le> m_size m"
      by auto
    note sh = Map_invD(1) [OF inv] and di = Map_invD(2) [OF inv] and sz = Map_invD(4) [OF inv]
      and cnt = Map_invD(5) [OF inv] and t2 = Map_invD(6) [OF inv] and t = Map_invD(7) [OF inv]
      and f = Map_invD(8,9) [OF inv]
    from Map_Put_new [OF inv nz absent, of val] full
    obtain s where s: "s < Map_cap m" "Map_key_at m s = FREE_KEY"
      and put: "Map_Put m key val =
         Map_rehash_with Map_Put (m\<lparr>m_data := (m_data m)[2 * s := key, Suc (2 * s) := val]\<rparr>)"
      by auto
    let ?m1 = "m\<lparr>m_data := (m_data m)[2 * s := key, Suc (2 * s) := val]\<rparr>"
    have fields: "m_fillFactor ?m1 = m_fillFactor m" "m_hasFreeKey ?m1 = m_hasFreeKey m"
      "length (m_data ?m1) = length (m_data m)"
      by simp_all
    have sh1: "Map_shape ?m1" using sh by (simp only: Map_ins_shape)
    have "\<lfloor>real (Map_cap m) * m_fillFactor m\<rfloor> < 2 ^ 60" using full small t by linarith
    hence "real (Map_cap m) * m_fillFactor m < 2 ^ 60"
      using floor_less_iff [of "real (Map_cap m) * m_fillFactor m" "2 ^ 60"] by simp
    moreover have "real (Map_cap m) / 2 \<le> real (Map_cap m) * m_fillFactor m"
      using mult_left_mono [OF f(1), of "real (Map_cap m)"] by simp
    ultimately have "real (Map_cap m) < 2 ^ 61" by simp
    hence cap: "Map_cap ?m1 < 2 ^ 61" unfolding Map_ins_cap
      by (metis of_nat_less_iff of_nat_numeral of_nat_power)
    have di1: "Map_keys_distinct ?m1" by (rule Map_ins_distinct [OF sh di s(1) absent])
    have c1: "Map_count ?m1 = Suc (Map_count m)" by (rule Map_ins_count [OF sh s nz])
    have len: "real (length (m_data m)) = 2 * real (Map_cap m)"
      using Map_length [OF sh] by simp
    have dbl: "2 * m_threshold m \<le> \<lfloor>real (length (m_data m)) * m_fillFactor m\<rfloor>"
      unfolding t len using floor_double [of "real (Map_cap m) * m_fillFactor m"]
      by (simp add: mult.assoc)
    have t21: "2 \<le> \<lfloor>real (length (m_data ?m1)) * m_fillFactor ?m1\<rfloor>"
      unfolding fields using dbl t2 by linarith
    have b1: "int (Map_count ?m1) + (if m_hasFreeKey ?m1 then 1 else 0)
        \<le> \<lfloor>real (length (m_data ?m1)) * m_fillFactor ?m1\<rfloor>"
      unfolding fields c1 using dbl t2 cnt by (simp split: if_splits)
    have f1: "1 / 2 \<le> m_fillFactor ?m1" "m_fillFactor ?m1 < 1" using f by simp_all
    from Map_rehash_correct [OF sh1 cap di1 f1 t21 b1]
    obtain m' where m': "Map_rehash_with Map_Put ?m1 = Some (Inr m')" "Map_inv m'"
      "\<forall>k v. Map_holds m' k v \<longleftrightarrow> Map_holds ?m1 k v"
      "m_size m' = int (Map_count ?m1) + (if m_hasFreeKey ?m1 then 1 else 0)"
      by blast
    have "m_size m' = m_size m + 1" using m'(4) sz unfolding c1 by simp
    moreover have "\<forall>k v. Map_holds m' k v \<longleftrightarrow> (if k = key then v = val else Map_holds m k v)"
      using m'(3) Map_ins_holds [OF sh s nz absent] by simp
    ultimately show ?thesis using m'(1,2) put by simp
  qed
qed

lemma Map_Put_all_correct:
  "Map_inv m \<Longrightarrow> m_size m + int (length ids) < 2 ^ 60 \<Longrightarrow>
   \<exists>m'. Map_Put_all m ids val = Some (Inr m') \<and> Map_inv m' \<and>
     m_size m \<le> m_size m' \<and> m_size m' \<le> m_size m + int (length ids) \<and>
     (\<forall>k v. Map_holds m' k v \<longleftrightarrow> (if k \<in> set ids then v = val else Map_holds m k v))"
proof (induction ids arbitrary: m)
  case Nil
  then show ?case by simp
next
  case (Cons a ids)
  from Cons.prems(2) have "m_size m < 2 ^ 60" by simp
  from Map_Put_correct [OF Cons.prems(1) this, of a val]
  obtain m1 where m1: "Map_Put m a val = Some (Inr m1)" "Map_inv m1"
    "m_size m \<le> m_size m1" "m_size m1 \<le> m_size m + 1"
    "\<forall>k v. Map_holds m1 k v \<longleftrightarrow> (if k = a then v = val else Map_holds m k v)"
    by blast
  have "m_size m1 + int (length ids) < 2 ^ 60" using m1(4) Cons.prems(2) by simp
  from Cons.IH [OF m1(2) this]
  obtain m' where m': "Map_Put_all m1 ids val = Some (Inr m')" "Map_inv m'"
    "m_size m1 \<le> m_size m'" "m_size m' \<le> m_size m1 + int (length ids)"
    "\<forall>k v. Map_holds m' k v \<longleftrightarrow> (if k \<in> set ids then v = val else Map_holds m1 k v)"
    by blast
  have "Map_Put_all m (a # ids) val = Some (Inr m')"
    using m1(1) m'(1) by (simp add: rbind_def)
  moreover have "m_size m \<le> m_size m'" "m_size m' \<le> m_size m + int (length (a # ids))"
    using m1(3,4) m'(3,4) by simp_all
  moreover have "\<forall>k v. Map_holds m' k v \<longleftrightarrow>
      (if k \<in> set (a # ids) then v = val else Map_holds m k v)"
    using m1(5) m'(5) by simp
  ultimately show ?case using m'(2) by blast
qed

lemma Map_Get_holds:
  assumes "Map_inv m" "Map_holds m k v"
  shows "Map_Get m k = Some (Inr (v, True))"
proof (cases "k = FREE_KEY")
  case True
  with assms(2) show ?thesis by (simp add: Map_Get_def Map_holds_def)
next
  case False
  with assms(2) obtain i where i: "i < Map_cap m" "Map_key_at m i = k" "Map_val_at m i = v"
    by (auto simp: Map_holds_def)
  from Map_Get_found [OF assms(1) i(1,2) False] i(3) show ?thesis by simp
qed

lemma Map_Get_absent:
  assumes "Map_inv m" "\<forall>v. \<not> Map_holds m k v"
  shows "Map_Get m k = Some (Inr (0, False))"
proof (cases "k = FREE_KEY")
  case True
  with assms(2) show ?thesis by (simp add: Map_Get_def Map_holds_def)
next
  case False
  note sh = Map_invD(1) [OF assms(1)]
  have c: "0 < Map_cap m" by (rule Map_cap_pos [OF sh])
  have h: "Map_home m k < Map_cap m" by (rule Map_home_less [OF sh])
  have absent: "\<forall>i<Map_cap m. Map_key_at m i \<noteq> k"
    using assms(2) False by (auto simp: Map_holds_def)
  from Map_probe_free [OF assms(1) h]
  obtain s where s: "s < Map_cap m" "Map_key_at m s = FREE_KEY"
    "\<forall>j<Map_dist m (Map_home m k) s.
       Map_key_at m ((Map_home m k + j) mod Map_cap m) \<noteq> FREE_KEY"
    by blast
  have path: "\<forall>j<Map_dist m (Map_home m k) s.
       Map_key_at m ((Map_home m k + j) mod Map_cap m) \<noteq> FREE_KEY \<and>
       Map_key_at m ((Map_home m k + j) mod Map_cap m) \<noteq> k"
    using s(3) absent c by simp
  have "Map_Get m k =
        Map_Get_loop m k (word_of_nat (2 * ((Map_home m k + Map_dist m (Map_home m k) s) mod Map_cap m)))
          (Map_key_at m ((Map_home m k + Map_dist m (Map_home m k) s) mod Map_cap m))"
    unfolding Map_Get_start [OF sh False]
    by (rule Map_Get_loop_skip [OF sh h path])
  also have "\<dots> = Map_Get_loop m k (word_of_nat (2 * s)) FREE_KEY"
    unfolding Map_dist_reach [OF h s(1)] s(2) ..
  also have "\<dots> = Some (Inr (0, False))"
    by (subst Map_Get_loop.simps) simp
  finally show ?thesis .
qed

lemma Map_Get_cong:
  assumes "Map_inv m" "Map_inv m'" "\<forall>v. Map_holds m' k v \<longleftrightarrow> Map_holds m k v"
  shows "Map_Get m' k = Map_Get m k"
proof (cases "\<exists>v. Map_holds m k v")
  case True
  then obtain v where "Map_holds m k v" by blast
  with assms Map_Get_holds [of m k v] Map_Get_holds [of m' k v] show ?thesis by simp
next
  case False
  with assms Map_Get_absent [of m k] Map_Get_absent [of m' k] show ?thesis by simp
qed

lemma map_8_06_key_at: "i < 16 \<Longrightarrow> Map_key_at map_8_06 i = FREE_KEY"
  by (simp add: Map_key_at_def map_8_06_def FREE_KEY_def)

lemma map_8_06_cap: "Map_cap map_8_06 = 16"
  by (simp add: Map_cap_def map_8_06_def)

lemma map_8_06_holds: "\<not> Map_holds map_8_06 k v"
  unfolding Map_holds_def map_8_06_cap using map_8_06_key_at
  by (auto simp: map_8_06_def)

lemma map_8_06_inv: "Map_inv map_8_06"
proof -
  have sh: "Map_shape map_8_06"
    unfolding Map_shape_def by (rule bexI [of _ 4]) (simp_all add: map_8_06_def)
  have di: "Map_keys_distinct map_8_06"
    unfolding Map_keys_distinct_def map_8_06_cap using map_8_06_key_at by simp
  have ch: "Map_chain map_8_06"
    unfolding Map_chain_def map_8_06_cap using map_8_06_key_at by simp
  have "{i\<in>{..<Map_cap map_8_06}. Map_key_at map_8_06 i \<noteq> FREE_KEY} = {}"
    unfolding map_8_06_cap using map_8_06_key_at by auto
  hence n: "Map_count map_8_06 = 0" unfolding Map_count_def by simp
  have t: "\<lfloor>16 * (6 / 10 :: real)\<rfloor> = 9" by linarith
  show ?thesis
    unfolding Map_inv_def n map_8_06_cap
    using sh di ch t by (simp add: map_8_06_def)
qed

section \<open>Proofs: the relation pass with a filter\<close>

text \<open>
  With a filter, \<^verbatim>\<open>Extract\<close> runs the relation pass first, from the state \<open>ex_state\<close>:
  three maps as \<^verbatim>\<open>NewUint64Map(8, 0.6)\<close> returns them, no cached node or way, nothing
  emitted.
\<close>

lemma Extract_with_filter:
  "Extract bounds (Some f) file =
     rbind (rbind (run_pass (relationFunc0 f) (f_relations file) ex_state)
              (run_pass (wayFunc1 f) (f_ways file))) (\<lambda>st.
     rbind (run_pass (nodeFunc bounds (Some f)) (f_nodes file) st) (\<lambda>st.
     rbind (if 0 < Map_Size (st_selectedWays st)
            then run_pass (wayFunc bounds (Some f)) (f_ways file) st
            else Some (Inr st)) (\<lambda>st.
     rbind (if 0 < Map_Size (st_selectedRelations st)
            then run_pass (relationFunc (Some f)) (f_relations file) st
            else Some (Inr st)) (\<lambda>st.
     Some (Inr (st_geometries st, st_warnings st))))))"
  using NewUint64Map_8_06 by (simp add: Extract_def ex_state_def)

lemma split_members_acc:
  "split_members ms (ns, ws) =
     (ns @ map mb_ID (filter (\<lambda>mb. mb_Type mb = NodeType) ms),
      ws @ map mb_ID (filter (\<lambda>mb. mb_Type mb = WayType) ms))"
  by (induction ms arbitrary: ns ws) simp_all

lemma split_members_eq:
  "split_members ms ([], []) =
     (map mb_ID (filter (\<lambda>mb. mb_Type mb = NodeType) ms),
      map mb_ID (filter (\<lambda>mb. mb_Type mb = WayType) ms))"
  by (simp add: split_members_acc)

lemma Map_Put_all_if:
  "(if 0 < length ids then Map_Put_all m ids v else Some (Inr m)) = Map_Put_all m ids v"
  by (cases ids) simp_all

lemma relationFunc0_correct:
  assumes invr: "Map_inv (st_selectedRelations st)" and invw: "Map_inv (st_selectedWays st)"
    and invn: "Map_inv (st_selectedNodes st)"
    and szr: "m_size (st_selectedRelations st) < 2 ^ 60"
    and szw: "m_size (st_selectedWays st) + int (length (r_Members r)) < 2 ^ 60"
    and szn: "m_size (st_selectedNodes st) + int (length (r_Members r)) < 2 ^ 60"
  shows "\<exists>st'. relationFunc0 f r st = Some (Inr st') \<and>
     Map_inv (st_selectedRelations st') \<and> Map_inv (st_selectedWays st') \<and>
     Map_inv (st_selectedNodes st') \<and>
     m_size (st_selectedRelations st') \<le> m_size (st_selectedRelations st) + 1 \<and>
     m_size (st_selectedWays st') \<le> m_size (st_selectedWays st) + int (length (r_Members r)) \<and>
     m_size (st_selectedNodes st') \<le> m_size (st_selectedNodes st) + int (length (r_Members r)) \<and>
     (\<forall>k v. Map_holds (st_selectedRelations st') k v \<longleftrightarrow>
        (if r_ID r = k \<and> f RelationType (r_ID r) (r_Tags r) \<noteq> 0 \<and>
            (\<exists>mb\<in>set (r_Members r). mb_Type mb = WayType \<or> mb_Type mb = NodeType)
         then v = ucast (f RelationType (r_ID r) (r_Tags r))
         else Map_holds (st_selectedRelations st) k v)) \<and>
     (\<forall>k v. Map_holds (st_selectedWays st') k v \<longleftrightarrow>
        (if f RelationType (r_ID r) (r_Tags r) \<noteq> 0 \<and>
            (\<exists>mb\<in>set (r_Members r). mb_Type mb = WayType \<and> mb_ID mb = k)
         then v = 0 else Map_holds (st_selectedWays st) k v)) \<and>
     (\<forall>k v. Map_holds (st_selectedNodes st') k v \<longleftrightarrow>
        (if f RelationType (r_ID r) (r_Tags r) \<noteq> 0 \<and>
            (\<exists>mb\<in>set (r_Members r). mb_Type mb = NodeType \<and> mb_ID mb = k)
         then v = 0 else Map_holds (st_selectedNodes st) k v))"
proof (cases "f RelationType (r_ID r) (r_Tags r) = 0")
  case True
  hence "relationFunc0 f r st = Some (Inr st)" by (simp add: relationFunc0_def)
  with True invr invw invn show ?thesis by simp
next
  case False
  define cls where "cls = f RelationType (r_ID r) (r_Tags r)"
  define nodes where "nodes = map mb_ID (filter (\<lambda>mb. mb_Type mb = NodeType) (r_Members r))"
  define ways where "ways = map mb_ID (filter (\<lambda>mb. mb_Type mb = WayType) (r_Members r))"
  have cl: "cls \<noteq> 0" using False by (simp add: cls_def)
  have lw: "length ways \<le> length (r_Members r)" and ln: "length nodes \<le> length (r_Members r)"
    by (simp_all add: ways_def nodes_def)
  have sw_set: "k \<in> set ways \<longleftrightarrow> (\<exists>mb\<in>set (r_Members r). mb_Type mb = WayType \<and> mb_ID mb = k)"
    for k by (auto simp: ways_def)
  have sn_set: "k \<in> set nodes \<longleftrightarrow> (\<exists>mb\<in>set (r_Members r). mb_Type mb = NodeType \<and> mb_ID mb = k)"
    for k by (auto simp: nodes_def)
  have some: "0 < length ways \<or> 0 < length nodes \<longleftrightarrow>
      (\<exists>mb\<in>set (r_Members r). mb_Type mb = WayType \<or> mb_Type mb = NodeType)"
    by (auto simp: ways_def nodes_def filter_empty_conv)
  have "\<exists>sr. (if 0 < length ways \<or> 0 < length nodes
               then Map_Put (st_selectedRelations st) (r_ID r) (ucast cls)
               else Some (Inr (st_selectedRelations st))) = Some (Inr sr) \<and>
          Map_inv sr \<and> m_size sr \<le> m_size (st_selectedRelations st) + 1 \<and>
          (\<forall>k v. Map_holds sr k v \<longleftrightarrow>
             (if r_ID r = k \<and> (0 < length ways \<or> 0 < length nodes) then v = ucast cls
              else Map_holds (st_selectedRelations st) k v))"
  proof (cases "0 < length ways \<or> 0 < length nodes")
    case True
    from Map_Put_correct [OF invr szr, of "r_ID r" "ucast cls"] True
    show ?thesis by auto
  next
    case False
    with invr show ?thesis by auto
  qed
  then obtain sr where sr:
    "(if 0 < length ways \<or> 0 < length nodes
      then Map_Put (st_selectedRelations st) (r_ID r) (ucast cls)
      else Some (Inr (st_selectedRelations st))) = Some (Inr sr)"
    "Map_inv sr" "m_size sr \<le> m_size (st_selectedRelations st) + 1"
    "\<forall>k v. Map_holds sr k v \<longleftrightarrow>
       (if r_ID r = k \<and> (0 < length ways \<or> 0 < length nodes) then v = ucast cls
        else Map_holds (st_selectedRelations st) k v)"
    by blast
  have "m_size (st_selectedWays st) + int (length ways) < 2 ^ 60" using szw lw by simp
  from Map_Put_all_correct [OF invw this, of 0]
  obtain sw where sw: "Map_Put_all (st_selectedWays st) ways 0 = Some (Inr sw)" "Map_inv sw"
    "m_size sw \<le> m_size (st_selectedWays st) + int (length ways)"
    "\<forall>k v. Map_holds sw k v \<longleftrightarrow>
       (if k \<in> set ways then v = 0 else Map_holds (st_selectedWays st) k v)"
    by blast
  have "m_size (st_selectedNodes st) + int (length nodes) < 2 ^ 60" using szn ln by simp
  from Map_Put_all_correct [OF invn this, of 0]
  obtain sn where sn: "Map_Put_all (st_selectedNodes st) nodes 0 = Some (Inr sn)" "Map_inv sn"
    "m_size sn \<le> m_size (st_selectedNodes st) + int (length nodes)"
    "\<forall>k v. Map_holds sn k v \<longleftrightarrow>
       (if k \<in> set nodes then v = 0 else Map_holds (st_selectedNodes st) k v)"
    by blast
  let ?st' = "st\<lparr>st_selectedRelations := sr, st_selectedWays := sw, st_selectedNodes := sn\<rparr>"
  have run: "relationFunc0 f r st = Some (Inr ?st')"
    unfolding relationFunc0_def Let_def split_members_eq prod.case Map_Put_all_if
    unfolding cls_def [symmetric] nodes_def [symmetric] ways_def [symmetric]
    using cl sr(1) sw(1) sn(1) by (simp add: rbind_def)
  have sels: "st_selectedRelations ?st' = sr" "st_selectedWays ?st' = sw"
    "st_selectedNodes ?st' = sn"
    by simp_all
  have hr: "\<forall>k v. Map_holds sr k v \<longleftrightarrow>
        (if r_ID r = k \<and> cls \<noteq> 0 \<and>
            (\<exists>mb\<in>set (r_Members r). mb_Type mb = WayType \<or> mb_Type mb = NodeType)
         then v = ucast cls
         else Map_holds (st_selectedRelations st) k v)"
    using sr(4) cl unfolding some by simp
  have hw: "\<forall>k v. Map_holds sw k v \<longleftrightarrow>
        (if cls \<noteq> 0 \<and> (\<exists>mb\<in>set (r_Members r). mb_Type mb = WayType \<and> mb_ID mb = k)
         then v = 0 else Map_holds (st_selectedWays st) k v)"
    using sw(4) cl unfolding sw_set by simp
  have hn: "\<forall>k v. Map_holds sn k v \<longleftrightarrow>
        (if cls \<noteq> 0 \<and> (\<exists>mb\<in>set (r_Members r). mb_Type mb = NodeType \<and> mb_ID mb = k)
         then v = 0 else Map_holds (st_selectedNodes st) k v)"
    using sn(4) cl unfolding sn_set by simp
  have bw: "m_size sw \<le> m_size (st_selectedWays st) + int (length (r_Members r))"
    using sw(3) lw by simp
  have bn: "m_size sn \<le> m_size (st_selectedNodes st) + int (length (r_Members r))"
    using sn(3) ln by simp
  show ?thesis
    apply (rule exI [of _ ?st'])
    unfolding sels cls_def [symmetric]
    using run sr(2,3) sw(2) sn(2) hr hw hn bw bn
    by (intro conjI) assumption+
qed

lemma run_pass_relationFunc0_correct:
  "Map_inv (st_selectedRelations st) \<Longrightarrow> Map_inv (st_selectedWays st) \<Longrightarrow>
   Map_inv (st_selectedNodes st) \<Longrightarrow>
   m_size (st_selectedRelations st) + int (length rels) < 2 ^ 60 \<Longrightarrow>
   m_size (st_selectedWays st) + int (length (concat (map r_Members rels))) < 2 ^ 60 \<Longrightarrow>
   m_size (st_selectedNodes st) + int (length (concat (map r_Members rels))) < 2 ^ 60 \<Longrightarrow>
   \<exists>st'. run_pass (relationFunc0 f) rels st = Some (Inr st') \<and>
     Map_inv (st_selectedRelations st') \<and> Map_inv (st_selectedWays st') \<and>
     Map_inv (st_selectedNodes st') \<and>
     (\<forall>k. if \<exists>r\<in>set rels. r_ID r = k \<and> f RelationType (r_ID r) (r_Tags r) \<noteq> 0 \<and>
               (\<exists>mb\<in>set (r_Members r). mb_Type mb = WayType \<or> mb_Type mb = NodeType)
          then \<exists>r\<in>set rels. r_ID r = k \<and> f RelationType (r_ID r) (r_Tags r) \<noteq> 0 \<and>
                 (\<exists>mb\<in>set (r_Members r). mb_Type mb = WayType \<or> mb_Type mb = NodeType) \<and>
                 (\<forall>v. Map_holds (st_selectedRelations st') k v \<longleftrightarrow>
                    v = ucast (f RelationType (r_ID r) (r_Tags r)))
          else \<forall>v. Map_holds (st_selectedRelations st') k v \<longleftrightarrow>
                 Map_holds (st_selectedRelations st) k v) \<and>
     (\<forall>k v. Map_holds (st_selectedWays st') k v \<longleftrightarrow>
        (if \<exists>r\<in>set rels. f RelationType (r_ID r) (r_Tags r) \<noteq> 0 \<and>
              (\<exists>mb\<in>set (r_Members r). mb_Type mb = WayType \<and> mb_ID mb = k)
         then v = 0 else Map_holds (st_selectedWays st) k v)) \<and>
     (\<forall>k v. Map_holds (st_selectedNodes st') k v \<longleftrightarrow>
        (if \<exists>r\<in>set rels. f RelationType (r_ID r) (r_Tags r) \<noteq> 0 \<and>
              (\<exists>mb\<in>set (r_Members r). mb_Type mb = NodeType \<and> mb_ID mb = k)
         then v = 0 else Map_holds (st_selectedNodes st) k v))"
proof (induction rels arbitrary: st)
  case Nil
  then show ?case by simp
next
  case (Cons r rels)
  define P where "P k r \<longleftrightarrow> r_ID r = k \<and> f RelationType (r_ID r) (r_Tags r) \<noteq> 0 \<and>
      (\<exists>mb\<in>set (r_Members r). mb_Type mb = WayType \<or> mb_Type mb = NodeType)"
    for k :: u64 and r :: Relation
  define W where "W t k r \<longleftrightarrow> f RelationType (r_ID r) (r_Tags r) \<noteq> 0 \<and>
      (\<exists>mb\<in>set (r_Members r). mb_Type mb = t \<and> mb_ID mb = k)"
    for t :: Type and k :: u64 and r :: Relation
  define C where "C r = (ucast (f RelationType (r_ID r) (r_Tags r)) :: u64)" for r :: Relation
  have szr: "m_size (st_selectedRelations st) < 2 ^ 60" using Cons.prems(4) by simp
  have szw: "m_size (st_selectedWays st) + int (length (r_Members r)) < 2 ^ 60"
    using Cons.prems(5) by simp
  have szn: "m_size (st_selectedNodes st) + int (length (r_Members r)) < 2 ^ 60"
    using Cons.prems(6) by simp
  from relationFunc0_correct [OF Cons.prems(1,2,3) szr szw szn, of f]
  obtain st1 where st1: "relationFunc0 f r st = Some (Inr st1)"
    "Map_inv (st_selectedRelations st1)" "Map_inv (st_selectedWays st1)"
    "Map_inv (st_selectedNodes st1)"
    "m_size (st_selectedRelations st1) \<le> m_size (st_selectedRelations st) + 1"
    "m_size (st_selectedWays st1) \<le> m_size (st_selectedWays st) + int (length (r_Members r))"
    "m_size (st_selectedNodes st1) \<le> m_size (st_selectedNodes st) + int (length (r_Members r))"
    and hr1: "\<forall>k v. Map_holds (st_selectedRelations st1) k v \<longleftrightarrow>
        (if P k r then v = C r else Map_holds (st_selectedRelations st) k v)"
    and hw1: "\<forall>k v. Map_holds (st_selectedWays st1) k v \<longleftrightarrow>
        (if W WayType k r then v = 0 else Map_holds (st_selectedWays st) k v)"
    and hn1: "\<forall>k v. Map_holds (st_selectedNodes st1) k v \<longleftrightarrow>
        (if W NodeType k r then v = 0 else Map_holds (st_selectedNodes st) k v)"
    unfolding P_def W_def C_def conj_assoc by blast
  have b: "m_size (st_selectedRelations st1) + int (length rels) < 2 ^ 60"
    "m_size (st_selectedWays st1) + int (length (concat (map r_Members rels))) < 2 ^ 60"
    "m_size (st_selectedNodes st1) + int (length (concat (map r_Members rels))) < 2 ^ 60"
    using st1(5,6,7) Cons.prems(4,5,6) by simp_all
  from Cons.IH [OF st1(2,3,4) b]
  obtain st' where st': "run_pass (relationFunc0 f) rels st1 = Some (Inr st')"
    "Map_inv (st_selectedRelations st')" "Map_inv (st_selectedWays st')"
    "Map_inv (st_selectedNodes st')"
    and hr: "\<forall>k. if \<exists>r\<in>set rels. P k r
          then \<exists>r\<in>set rels. P k r \<and> (\<forall>v. Map_holds (st_selectedRelations st') k v \<longleftrightarrow> v = C r)
          else \<forall>v. Map_holds (st_selectedRelations st') k v \<longleftrightarrow>
                 Map_holds (st_selectedRelations st1) k v"
    and hw: "\<forall>k v. Map_holds (st_selectedWays st') k v \<longleftrightarrow>
        (if \<exists>r\<in>set rels. W WayType k r then v = 0 else Map_holds (st_selectedWays st1) k v)"
    and hn: "\<forall>k v. Map_holds (st_selectedNodes st') k v \<longleftrightarrow>
        (if \<exists>r\<in>set rels. W NodeType k r then v = 0 else Map_holds (st_selectedNodes st1) k v)"
    unfolding P_def W_def C_def conj_assoc by blast
  have run: "run_pass (relationFunc0 f) (r # rels) st = Some (Inr st')"
    using st1(1) st'(1) by (simp add: rbind_def)
  have hr': "if \<exists>r\<in>set (r # rels). P k r
          then \<exists>r\<in>set (r # rels). P k r \<and>
                 (\<forall>v. Map_holds (st_selectedRelations st') k v \<longleftrightarrow> v = C r)
          else \<forall>v. Map_holds (st_selectedRelations st') k v \<longleftrightarrow>
                 Map_holds (st_selectedRelations st) k v" for k
  proof (cases "\<exists>r\<in>set rels. P k r")
    case True
    with hr [rule_format, of k]
    obtain r' where "r' \<in> set rels" "P k r'"
      "\<forall>v. Map_holds (st_selectedRelations st') k v \<longleftrightarrow> v = C r'" by auto
    hence "\<exists>r\<in>set (r # rels). P k r \<and>
        (\<forall>v. Map_holds (st_selectedRelations st') k v \<longleftrightarrow> v = C r)" by auto
    moreover have "\<exists>r\<in>set (r # rels). P k r" using True by auto
    ultimately show ?thesis by (simp only: if_True)
  next
    case False
    with hr [rule_format, of k]
    have same: "\<forall>v. Map_holds (st_selectedRelations st') k v \<longleftrightarrow>
        Map_holds (st_selectedRelations st1) k v" by simp
    show ?thesis
    proof (cases "P k r")
      case True
      with same hr1 have "\<forall>v. Map_holds (st_selectedRelations st') k v \<longleftrightarrow> v = C r" by simp
      with True have "\<exists>r\<in>set (r # rels). P k r \<and>
          (\<forall>v. Map_holds (st_selectedRelations st') k v \<longleftrightarrow> v = C r)" by auto
      moreover have "\<exists>r\<in>set (r # rels). P k r" using True by auto
      ultimately show ?thesis by (simp only: if_True)
    next
      case no: False
      with False have none: "\<not> (\<exists>r\<in>set (r # rels). P k r)" by auto
      from same hr1 no have "\<forall>v. Map_holds (st_selectedRelations st') k v \<longleftrightarrow>
          Map_holds (st_selectedRelations st) k v" by simp
      with none show ?thesis by (simp only: if_False simp_thms)
    qed
  qed
  have hw': "\<forall>k v. Map_holds (st_selectedWays st') k v \<longleftrightarrow>
        (if \<exists>r\<in>set (r # rels). W WayType k r then v = 0 else Map_holds (st_selectedWays st) k v)"
    using hw hw1 by auto
  have hn': "\<forall>k v. Map_holds (st_selectedNodes st') k v \<longleftrightarrow>
        (if \<exists>r\<in>set (r # rels). W NodeType k r then v = 0 else Map_holds (st_selectedNodes st) k v)"
    using hn hn1 by auto
  from hr' have hr'': "\<forall>k. if \<exists>r\<in>set (r # rels). P k r
          then \<exists>r\<in>set (r # rels). P k r \<and>
                 (\<forall>v. Map_holds (st_selectedRelations st') k v \<longleftrightarrow> v = C r)
          else \<forall>v. Map_holds (st_selectedRelations st') k v \<longleftrightarrow>
                 Map_holds (st_selectedRelations st) k v" by blast
  show ?case
    apply (rule exI [of _ st'])
    using run st'(2,3,4) hr'' hw' hn'
    unfolding P_def W_def C_def conj_assoc
    by (intro conjI) assumption+
qed

lemma Map_Get_map_8_06: "Map_Get map_8_06 k = Some (Inr (0, False))"
  by (rule Map_Get_absent [OF map_8_06_inv]) (simp add: map_8_06_holds)

text \<open>
  C7. The relation pass that \<^verbatim>\<open>Extract\<close> runs first when a filter is given, from any
  state whose three maps are well-formed and hold fewer than \<open>2^60\<close> entries together
  with what the pass can add, returns, and afterwards
  \<^item> under the id of every relation whose filter result is not 0 and that has at least
    one way or node member, \<^verbatim>\<open>selectedRelations\<close> holds the class of such a relation with
    that id (the class of the relation itself when no other such relation has its id),
    and it is as before under every other key: a relation whose members are all
    relations, or that has no member, is not recorded, whatever its class;
  \<^item> \<^verbatim>\<open>selectedWays\<close> holds the value 0 under the id of every way member of every relation
    whose filter result is not 0, and is as before under every other key;
  \<^item> \<^verbatim>\<open>selectedNodes\<close> holds the value 0 under the id of every node member of every
    relation whose filter result is not 0, and is as before under every other key.

  The statement holds for every list of relations and names them only through the set
  of the list: it is the same for every order in which the relations are handed to the
  callback.
\<close>

theorem relations_pass_records:
  assumes "Map_inv (st_selectedRelations st)" "Map_inv (st_selectedWays st)"
    "Map_inv (st_selectedNodes st)"
    and "m_size (st_selectedRelations st) + int (length rels) < 2 ^ 60"
    and "m_size (st_selectedWays st) + int (length (concat (map r_Members rels))) < 2 ^ 60"
    and "m_size (st_selectedNodes st) + int (length (concat (map r_Members rels))) < 2 ^ 60"
  shows "\<exists>st'. run_pass (relationFunc0 f) rels st = Some (Inr st') \<and>
     (\<forall>k. if \<exists>r\<in>set rels. r_ID r = k \<and> f RelationType (r_ID r) (r_Tags r) \<noteq> 0 \<and>
               (\<exists>mb\<in>set (r_Members r). mb_Type mb = WayType \<or> mb_Type mb = NodeType)
          then \<exists>r\<in>set rels. r_ID r = k \<and> f RelationType (r_ID r) (r_Tags r) \<noteq> 0 \<and>
                 (\<exists>mb\<in>set (r_Members r). mb_Type mb = WayType \<or> mb_Type mb = NodeType) \<and>
                 Map_Get (st_selectedRelations st') k =
                   Some (Inr (ucast (f RelationType (r_ID r) (r_Tags r)), True))
          else Map_Get (st_selectedRelations st') k = Map_Get (st_selectedRelations st) k) \<and>
     (\<forall>k. Map_Get (st_selectedWays st') k =
        (if \<exists>r\<in>set rels. f RelationType (r_ID r) (r_Tags r) \<noteq> 0 \<and>
              (\<exists>mb\<in>set (r_Members r). mb_Type mb = WayType \<and> mb_ID mb = k)
         then Some (Inr (0, True)) else Map_Get (st_selectedWays st) k)) \<and>
     (\<forall>k. Map_Get (st_selectedNodes st') k =
        (if \<exists>r\<in>set rels. f RelationType (r_ID r) (r_Tags r) \<noteq> 0 \<and>
              (\<exists>mb\<in>set (r_Members r). mb_Type mb = NodeType \<and> mb_ID mb = k)
         then Some (Inr (0, True)) else Map_Get (st_selectedNodes st) k))"
proof -
  define P where "P k r \<longleftrightarrow> r_ID r = k \<and> f RelationType (r_ID r) (r_Tags r) \<noteq> 0 \<and>
      (\<exists>mb\<in>set (r_Members r). mb_Type mb = WayType \<or> mb_Type mb = NodeType)"
    for k :: u64 and r :: Relation
  define C where "C r = (ucast (f RelationType (r_ID r) (r_Tags r)) :: u64)" for r :: Relation
  define D where "D t k \<longleftrightarrow> (\<exists>r\<in>set rels. f RelationType (r_ID r) (r_Tags r) \<noteq> 0 \<and>
      (\<exists>mb\<in>set (r_Members r). mb_Type mb = t \<and> mb_ID mb = k))" for t k
  from run_pass_relationFunc0_correct [OF assms, of f]
  obtain st' where run: "run_pass (relationFunc0 f) rels st = Some (Inr st')"
    and inv: "Map_inv (st_selectedRelations st')" "Map_inv (st_selectedWays st')"
      "Map_inv (st_selectedNodes st')"
    and hr: "\<forall>k. if \<exists>r\<in>set rels. P k r
          then \<exists>r\<in>set rels. P k r \<and> (\<forall>v. Map_holds (st_selectedRelations st') k v \<longleftrightarrow> v = C r)
          else \<forall>v. Map_holds (st_selectedRelations st') k v \<longleftrightarrow>
                 Map_holds (st_selectedRelations st) k v"
    and hw: "\<forall>k v. Map_holds (st_selectedWays st') k v \<longleftrightarrow>
        (if D WayType k then v = 0 else Map_holds (st_selectedWays st) k v)"
    and hn: "\<forall>k v. Map_holds (st_selectedNodes st') k v \<longleftrightarrow>
        (if D NodeType k then v = 0 else Map_holds (st_selectedNodes st) k v)"
    unfolding P_def C_def D_def conj_assoc by blast
  have r: "if \<exists>r\<in>set rels. P k r
          then \<exists>r\<in>set rels. P k r \<and>
                 Map_Get (st_selectedRelations st') k = Some (Inr (C r, True))
          else Map_Get (st_selectedRelations st') k = Map_Get (st_selectedRelations st) k" for k
  proof (cases "\<exists>r\<in>set rels. P k r")
    case True
    with hr [rule_format, of k]
    obtain r where r: "r \<in> set rels" "P k r"
      "\<forall>v. Map_holds (st_selectedRelations st') k v \<longleftrightarrow> v = C r" by auto
    from r(3) have "Map_holds (st_selectedRelations st') k (C r)" by simp
    from Map_Get_holds [OF inv(1) this] r(1,2)
    have "\<exists>r\<in>set rels. P k r \<and>
        Map_Get (st_selectedRelations st') k = Some (Inr (C r, True))" by blast
    with True show ?thesis by (simp only: if_True)
  next
    case False
    with hr [rule_format, of k]
    have "\<forall>v. Map_holds (st_selectedRelations st') k v \<longleftrightarrow>
        Map_holds (st_selectedRelations st) k v" by simp
    from Map_Get_cong [OF assms(1) inv(1) this] False show ?thesis by (simp only: if_False)
  qed
  have w: "Map_Get (st_selectedWays st') k =
        (if D WayType k then Some (Inr (0, True)) else Map_Get (st_selectedWays st) k)" for k
  proof (cases "D WayType k")
    case True
    with hw have "Map_holds (st_selectedWays st') k 0" by simp
    from Map_Get_holds [OF inv(2) this] True show ?thesis by simp
  next
    case False
    with hw have "\<forall>v. Map_holds (st_selectedWays st') k v \<longleftrightarrow>
        Map_holds (st_selectedWays st) k v" by simp
    from Map_Get_cong [OF assms(2) inv(2) this] False show ?thesis by simp
  qed
  have n: "Map_Get (st_selectedNodes st') k =
        (if D NodeType k then Some (Inr (0, True)) else Map_Get (st_selectedNodes st) k)" for k
  proof (cases "D NodeType k")
    case True
    with hn have "Map_holds (st_selectedNodes st') k 0" by simp
    from Map_Get_holds [OF inv(3) this] True show ?thesis by simp
  next
    case False
    with hn have "\<forall>v. Map_holds (st_selectedNodes st') k v \<longleftrightarrow>
        Map_holds (st_selectedNodes st) k v" by simp
    from Map_Get_cong [OF assms(3) inv(3) this] False show ?thesis by simp
  qed
  from r have r': "\<forall>k. if \<exists>r\<in>set rels. P k r
          then \<exists>r\<in>set rels. P k r \<and>
                 Map_Get (st_selectedRelations st') k = Some (Inr (C r, True))
          else Map_Get (st_selectedRelations st') k = Map_Get (st_selectedRelations st) k"
    by blast
  from w have w': "\<forall>k. Map_Get (st_selectedWays st') k =
        (if D WayType k then Some (Inr (0, True)) else Map_Get (st_selectedWays st) k)" by blast
  from n have n': "\<forall>k. Map_Get (st_selectedNodes st') k =
        (if D NodeType k then Some (Inr (0, True)) else Map_Get (st_selectedNodes st) k)" by blast
  show ?thesis
    apply (rule exI [of _ st'])
    using run r' w' n'
    unfolding P_def C_def D_def conj_assoc
    by (intro conjI) assumption+
qed

theorem relations_pass_records_witness:
  "\<exists>st'. run_pass (relationFunc0 all_class_1) [super_relation, multipolygon_relation] ex_state
            = Some (Inr st') \<and>
     Map_Get (st_selectedRelations st') 7 = Some (Inr (1, True)) \<and>
     Map_Get (st_selectedRelations st') 5 = Some (Inr (0, False)) \<and>
     Map_Get (st_selectedWays st') 20 = Some (Inr (0, True)) \<and>
     Map_Get (st_selectedWays st') 30 = Some (Inr (0, False)) \<and>
     Map_Get (st_selectedNodes st') 30 = Some (Inr (0, True))"
proof -
  have sel: "st_selectedRelations ex_state = map_8_06" "st_selectedWays ex_state = map_8_06"
    "st_selectedNodes ex_state = map_8_06"
    by (simp_all add: ex_state_def)
  have sz: "m_size map_8_06 = 0" by (simp add: map_8_06_def)
  have s1: "m_size map_8_06 + int (length [super_relation, multipolygon_relation]) < 2 ^ 60"
    by (simp add: sz)
  have s2: "m_size map_8_06 +
      int (length (concat (map r_Members [super_relation, multipolygon_relation]))) < 2 ^ 60"
    by (simp add: sz super_relation_def multipolygon_relation_def)
  from relations_pass_records [of ex_state "[super_relation, multipolygon_relation]" all_class_1,
      unfolded sel, OF map_8_06_inv map_8_06_inv map_8_06_inv s1 s2 s2]
  obtain st' where st':
    "run_pass (relationFunc0 all_class_1) [super_relation, multipolygon_relation] ex_state
       = Some (Inr st')"
    "\<forall>k. if \<exists>r\<in>set [super_relation, multipolygon_relation]. r_ID r = k \<and>
               all_class_1 RelationType (r_ID r) (r_Tags r) \<noteq> 0 \<and>
               (\<exists>mb\<in>set (r_Members r). mb_Type mb = WayType \<or> mb_Type mb = NodeType)
          then \<exists>r\<in>set [super_relation, multipolygon_relation]. r_ID r = k \<and>
                 all_class_1 RelationType (r_ID r) (r_Tags r) \<noteq> 0 \<and>
                 (\<exists>mb\<in>set (r_Members r). mb_Type mb = WayType \<or> mb_Type mb = NodeType) \<and>
                 Map_Get (st_selectedRelations st') k =
                   Some (Inr (ucast (all_class_1 RelationType (r_ID r) (r_Tags r)), True))
          else Map_Get (st_selectedRelations st') k = Map_Get map_8_06 k"
    "\<forall>k. Map_Get (st_selectedWays st') k =
        (if \<exists>r\<in>set [super_relation, multipolygon_relation].
              all_class_1 RelationType (r_ID r) (r_Tags r) \<noteq> 0 \<and>
              (\<exists>mb\<in>set (r_Members r). mb_Type mb = WayType \<and> mb_ID mb = k)
         then Some (Inr (0, True)) else Map_Get map_8_06 k)"
    "\<forall>k. Map_Get (st_selectedNodes st') k =
        (if \<exists>r\<in>set [super_relation, multipolygon_relation].
              all_class_1 RelationType (r_ID r) (r_Tags r) \<noteq> 0 \<and>
              (\<exists>mb\<in>set (r_Members r). mb_Type mb = NodeType \<and> mb_ID mb = k)
         then Some (Inr (0, True)) else Map_Get map_8_06 k)"
    by blast
  have "Map_Get (st_selectedRelations st') 7 = Some (Inr (1, True))"
    using st'(2) [rule_format, of 7]
    by (simp add: super_relation_def multipolygon_relation_def all_class_1_def)
  moreover have "Map_Get (st_selectedRelations st') 5 = Some (Inr (0, False))"
    using st'(2) [rule_format, of 5]
    by (simp add: super_relation_def multipolygon_relation_def all_class_1_def
        Map_Get_map_8_06)
  moreover have "Map_Get (st_selectedWays st') 20 = Some (Inr (0, True))"
    using st'(3) [rule_format, of 20]
    by (simp add: super_relation_def multipolygon_relation_def all_class_1_def)
  moreover have "Map_Get (st_selectedWays st') 30 = Some (Inr (0, False))"
    using st'(3) [rule_format, of 30]
    by (simp add: super_relation_def multipolygon_relation_def all_class_1_def
        Map_Get_map_8_06)
  moreover have "Map_Get (st_selectedNodes st') 30 = Some (Inr (0, True))"
    using st'(4) [rule_format, of 30]
    by (simp add: super_relation_def multipolygon_relation_def all_class_1_def)
  ultimately show ?thesis using st'(1) by blast
qed

text \<open>
  A relation with a nonzero class whose only member is a relation: the pass from the
  state in which \<^verbatim>\<open>Extract\<close> starts leaves that state as it is, and
  \<^verbatim>\<open>selectedRelations\<close> has no entry under the id of the relation.
\<close>

theorem relations_pass_skips_super_relation:
  "all_class_1 RelationType (r_ID super_relation) (r_Tags super_relation) = 1 \<and>
   run_pass (relationFunc0 all_class_1) [super_relation] ex_state = Some (Inr ex_state) \<and>
   Map_Get (st_selectedRelations ex_state) (r_ID super_relation) = Some (Inr (0, False)) \<and>
   Map_Has (st_selectedRelations ex_state) (r_ID super_relation) = Some (Inr False)"
  by (simp add: all_class_1_def super_relation_def relationFunc0_def rbind_def ex_state_def
      map_8_06_def Map_Get_def Map_Has_def Map_Get_loop.simps Map_Has_loop.simps
      phiMix_def INT_PHI_def FREE_KEY_def)

section \<open>Proofs: node pass and outcodes\<close>

lemma outcode_zero_iff:
  "cohenSutherlandOutcode bounds c = 0 \<longleftrightarrow>
     X (fst bounds) < X c \<and> X c < X (snd bounds) \<and> Y (fst bounds) < Y c \<and> Y c < Y (snd bounds)"
  by (auto simp: cohenSutherlandOutcode_def Let_def)

lemma nodeFunc_no_filter:
  "nodeFunc bounds None node st =
     Some (Inr (let c = \<lparr>X = n_Lon node, Y = n_Lat node\<rparr>;
                    oc = cohenSutherlandOutcode bounds c;
                    st1 = st\<lparr>st_nodes := (st_nodes st)(n_ID node \<mapsto>
                              \<lparr>wn_Coord = c, wn_Class = 0, wn_Outcode = oc\<rparr>)\<rparr>
                in if oc = 0
                   then st1\<lparr>st_geometries := (st_geometries st)(0 := st_geometries st 0 @
                          [\<lparr>g_Type = NodeType, g_ID = n_ID node, g_Points = [c],
                            g_LineStrings = [], g_Polygons = [], g_Tags = n_Tags node\<rparr>])\<rparr>
                   else st1))"
  by (simp add: nodeFunc_def rbind_def Let_def)

lemma nodeFunc_geometries:
  assumes "nodeFunc bounds filter' node st = Some (Inr st')"
  shows "st_geometries st' =
     (let class = (case filter' of None \<Rightarrow> 0 | Some f \<Rightarrow> f NodeType (n_ID node) (n_Tags node))
      in if (filter' = None \<or> class \<noteq> 0)
            \<and> cohenSutherlandOutcode bounds \<lparr>X = n_Lon node, Y = n_Lat node\<rparr> = 0
         then (st_geometries st)(class := st_geometries st class @
                [\<lparr>g_Type = NodeType, g_ID = n_ID node,
                  g_Points = [\<lparr>X = n_Lon node, Y = n_Lat node\<rparr>],
                  g_LineStrings = [], g_Polygons = [], g_Tags = n_Tags node\<rparr>])
         else st_geometries st)"
  using assms
  by (auto simp: nodeFunc_def rbind_def Let_def split: option.splits sum.splits if_splits)

text \<open>
  C10. A coordinate on an edge of the bounds (inside the closed rectangle, with one
  coordinate equal to a bound) gets a nonzero outcode although \<open>Contains\<close> holds for it,
  and the node pass, whenever it returns, leaves the geometries as they were for such a
  node. The outcode is 0 exactly for the coordinates strictly inside the rectangle, and
  the node pass appends a point geometry exactly when the outcode is 0 and the node
  passes the filter (or there is none).
\<close>

theorem node_on_bounds_edge_not_emitted:
  "(Contains bounds c \<and>
      (X c = X (fst bounds) \<or> X c = X (snd bounds) \<or> Y c = Y (fst bounds) \<or> Y c = Y (snd bounds))
     \<longrightarrow> cohenSutherlandOutcode bounds c \<noteq> 0 \<and>
         (\<forall>filter' node st st'.
            \<lparr>X = n_Lon node, Y = n_Lat node\<rparr> = c \<and>
            nodeFunc bounds filter' node st = Some (Inr st')
            \<longrightarrow> st_geometries st' = st_geometries st)) \<and>
   (cohenSutherlandOutcode bounds c = 0 \<longleftrightarrow>
      X (fst bounds) < X c \<and> X c < X (snd bounds) \<and> Y (fst bounds) < Y c \<and> Y c < Y (snd bounds)) \<and>
   (\<forall>filter' node st st'.
      \<lparr>X = n_Lon node, Y = n_Lat node\<rparr> = c \<and> nodeFunc bounds filter' node st = Some (Inr st')
      \<longrightarrow> (st_geometries st' \<noteq> st_geometries st \<longleftrightarrow>
           (filter' = None \<or> the filter' NodeType (n_ID node) (n_Tags node) \<noteq> 0) \<and>
           X (fst bounds) < X c \<and> X c < X (snd bounds) \<and>
           Y (fst bounds) < Y c \<and> Y c < Y (snd bounds)))"
proof (intro conjI impI allI)
  assume a: "Contains bounds c \<and>
      (X c = X (fst bounds) \<or> X c = X (snd bounds) \<or> Y c = Y (fst bounds) \<or> Y c = Y (snd bounds))"
  then show nz: "cohenSutherlandOutcode bounds c \<noteq> 0"
    by (auto simp: outcode_zero_iff)
  fix filter' node st st'
  assume "\<lparr>X = n_Lon node, Y = n_Lat node\<rparr> = c \<and>
            nodeFunc bounds filter' node st = Some (Inr st')"
  then show "st_geometries st' = st_geometries st"
    using nz nodeFunc_geometries[of bounds filter' node st st'] by (simp add: Let_def)
next
  show "cohenSutherlandOutcode bounds c = 0 \<longleftrightarrow>
      X (fst bounds) < X c \<and> X c < X (snd bounds) \<and> Y (fst bounds) < Y c \<and> Y c < Y (snd bounds)"
    by (rule outcode_zero_iff)
next
  fix filter' node st st'
  assume a: "\<lparr>X = n_Lon node, Y = n_Lat node\<rparr> = c \<and>
      nodeFunc bounds filter' node st = Some (Inr st')"
  have neq: "(st_geometries st)(cl := st_geometries st cl @ [g]) \<noteq> st_geometries st" for cl g
  proof
    assume "(st_geometries st)(cl := st_geometries st cl @ [g]) = st_geometries st"
    then have "((st_geometries st)(cl := st_geometries st cl @ [g])) cl = st_geometries st cl"
      by simp
    then show False by simp
  qed
  show "st_geometries st' \<noteq> st_geometries st \<longleftrightarrow>
           (filter' = None \<or> the filter' NodeType (n_ID node) (n_Tags node) \<noteq> 0) \<and>
           X (fst bounds) < X c \<and> X c < X (snd bounds) \<and>
           Y (fst bounds) < Y c \<and> Y c < Y (snd bounds)"
    using a nodeFunc_geometries[of bounds filter' node st st'] neq
    by (cases filter') (auto simp: Let_def outcode_zero_iff[symmetric] simp del: fun_upd_apply)
qed

theorem node_on_bounds_edge_not_emitted_witness:
  "Contains (\<lparr>X = - 1, Y = - 1\<rparr>, \<lparr>X = 1, Y = 1\<rparr>) \<lparr>X = 1, Y = 0\<rparr> \<and>
   cohenSutherlandOutcode (\<lparr>X = - 1, Y = - 1\<rparr>, \<lparr>X = 1, Y = 1\<rparr>) \<lparr>X = 1, Y = 0\<rparr> = 2 \<and>
   (\<exists>st'. nodeFunc (\<lparr>X = - 1, Y = - 1\<rparr>, \<lparr>X = 1, Y = 1\<rparr>) None
            \<lparr>n_ID = 1, n_Lon = 1, n_Lat = 0, n_Tags = []\<rparr>
            \<lparr>st_selectedNodes = map_8_06, st_selectedWays = map_8_06,
             st_selectedRelations = map_8_06, st_nodes = Map.empty, st_ways = Map.empty,
             st_geometries = (\<lambda>c. []), st_warnings = []\<rparr> = Some (Inr st')
          \<and> st_geometries st' = (\<lambda>c. []))"
proof -
  let ?b = "(\<lparr>X = - 1, Y = - 1\<rparr>, \<lparr>X = 1, Y = 1\<rparr>) :: Bounds"
  let ?c = "\<lparr>X = 1, Y = 0\<rparr> :: Coord"
  let ?node = "\<lparr>n_ID = 1, n_Lon = 1, n_Lat = 0, n_Tags = []\<rparr>"
  let ?st = "\<lparr>st_selectedNodes = map_8_06, st_selectedWays = map_8_06,
             st_selectedRelations = map_8_06, st_nodes = Map.empty, st_ways = Map.empty,
             st_geometries = (\<lambda>c. []), st_warnings = []\<rparr>"
  have c: "Contains ?b ?c \<and> (X ?c = X (fst ?b) \<or> X ?c = X (snd ?b) \<or> Y ?c = Y (fst ?b) \<or> Y ?c = Y (snd ?b))"
    by (simp add: Contains_def)
  have oc: "cohenSutherlandOutcode ?b ?c = 2"
    by (simp add: cohenSutherlandOutcode_def)
  obtain st' where r: "nodeFunc ?b None ?node ?st = Some (Inr st')"
    by (simp add: nodeFunc_no_filter)
  have "\<forall>filter' node st st'.
            \<lparr>X = n_Lon node, Y = n_Lat node\<rparr> = ?c \<and>
            nodeFunc ?b filter' node st = Some (Inr st')
            \<longrightarrow> st_geometries st' = st_geometries st"
    using node_on_bounds_edge_not_emitted[of ?b ?c] c by blast
  from this[rule_format, of ?node None ?st st'] r
  have "st_geometries st' = st_geometries ?st"
    by simp
  with c oc r show ?thesis by auto
qed

section \<open>Proofs: way pass\<close>

text \<open>
  C8. Whenever the way pass handles a way (it is selected and has a ref), with
  \<open>clipped\<close> the sequence the clipping loop produced and \<open>closed'\<close> saying that the first
  ref equals the last: a closed way with fewer than 3 clipped points and an open way with
  fewer than 2 is dropped (no geometry is added and the way is stored without
  coordinates); otherwise the stored and emitted sequence is \<open>clipped\<close>, with its first
  point appended when the way is closed and \<open>clipped\<close> does not end at its first point.
\<close>

theorem way_post_clip:
  assumes "(if filter' = None then Some (Inr (0, True))
            else Map_Get (st_selectedWays st) (w_ID way)) = Some (Inr (wayItem, True))"
    and "w_Refs way \<noteq> []"
  shows "\<exists>st'. wayFunc bounds filter' way st = Some (Inr st') \<and>
    (let clipped = clipWay bounds (st_nodes st) (w_Refs way);
         closed' = (w_Refs way ! 0 = last (w_Refs way));
         class = (ucast wayItem :: Class);
         dropped = (closed' \<and> length clipped < 3 \<or> \<not> closed' \<and> length clipped < 2);
         coords = (if closed' \<and> clipped ! 0 \<noteq> last clipped then clipped @ [clipped ! 0]
                   else clipped)
     in (dropped \<longrightarrow>
           st_geometries st' = st_geometries st \<and>
           map_option rw_Coords (st_ways st' (w_ID way)) = Some []) \<and>
        (\<not> dropped \<longrightarrow>
           map_option rw_Coords (st_ways st' (w_ID way)) = Some coords \<and>
           st_geometries st' =
             (if filter' = None \<or> class \<noteq> 0
              then (st_geometries st)(class := st_geometries st class
                      @ [wayGeometry way closed' coords])
              else st_geometries st)))"
proof -
  have len: "0 < length (w_Refs way)"
    using assms(2) by simp
  show ?thesis
    unfolding wayFunc_def assms(1) rbind_def
    using len
    by (auto simp: postClip_def Let_def)
qed

lemma ex_clip_1:
  "clipStep ex_bounds ex_nodes ([], \<lparr>X = 0, Y = 0\<rparr>, 15) 1 = ([], \<lparr>X = - 2, Y = 0\<rparr>, 1)"
  by (simp add: clipStep_def ex_nodes_def ex_bounds_def Let_def)

lemma ex_clip_2:
  "clipStep ex_bounds ex_nodes ([], \<lparr>X = - 2, Y = 0\<rparr>, 1) 2
     = ([\<lparr>X = - 1, Y = 0\<rparr>, \<lparr>X = 0, Y = 0\<rparr>], \<lparr>X = 0, Y = 0\<rparr>, 0)"
  by (simp add: clipStep_def ex_nodes_def ex_bounds_def clipCoord_def Let_def)

lemma ex_clip_3:
  "clipStep ex_bounds ex_nodes ([\<lparr>X = - 1, Y = 0\<rparr>, \<lparr>X = 0, Y = 0\<rparr>], \<lparr>X = 0, Y = 0\<rparr>, 0) 3
     = ([\<lparr>X = - 1, Y = 0\<rparr>, \<lparr>X = 0, Y = 0\<rparr>, \<lparr>X = 0, Y = 1 / 2\<rparr>], \<lparr>X = 0, Y = 1 / 2\<rparr>, 0)"
  by (simp add: clipStep_def ex_nodes_def ex_bounds_def clipCoord_def Let_def)

lemma ex_clip_4:
  "clipStep ex_bounds ex_nodes
     ([\<lparr>X = - 1, Y = 0\<rparr>, \<lparr>X = 0, Y = 0\<rparr>, \<lparr>X = 0, Y = 1 / 2\<rparr>], \<lparr>X = 0, Y = 1 / 2\<rparr>, 0) 1
     = ([\<lparr>X = - 1, Y = 0\<rparr>, \<lparr>X = 0, Y = 0\<rparr>, \<lparr>X = 0, Y = 1 / 2\<rparr>, \<lparr>X = - 1, Y = 1 / 4\<rparr>],
        \<lparr>X = - 2, Y = 0\<rparr>, 1)"
  by (simp add: clipStep_def ex_nodes_def ex_bounds_def clipCoord_def Let_def)

lemma ex_clipWay:
  "clipWay ex_bounds ex_nodes [1, 2, 3, 1]
     = [\<lparr>X = - 1, Y = 0\<rparr>, \<lparr>X = 0, Y = 0\<rparr>, \<lparr>X = 0, Y = 1 / 2\<rparr>, \<lparr>X = - 1, Y = 1 / 4\<rparr>]"
  by (simp add: clipWay_def ex_clip_1 ex_clip_2 ex_clip_3 ex_clip_4)

theorem way_post_clip_witness:
  "\<exists>st'. wayFunc ex_bounds None \<lparr>w_ID = 7, w_Refs = [1, 2, 3, 1], w_Tags = []\<rparr>
            (ex_state\<lparr>st_nodes := ex_nodes\<rparr>) = Some (Inr st') \<and>
        map_option rw_Coords (st_ways st' 7)
          = Some [\<lparr>X = - 1, Y = 0\<rparr>, \<lparr>X = 0, Y = 0\<rparr>, \<lparr>X = 0, Y = 1 / 2\<rparr>,
                  \<lparr>X = - 1, Y = 1 / 4\<rparr>, \<lparr>X = - 1, Y = 0\<rparr>] \<and>
        map g_LineStrings (st_geometries st' 0)
          = [[[\<lparr>X = - 1, Y = 0\<rparr>, \<lparr>X = 0, Y = 0\<rparr>, \<lparr>X = 0, Y = 1 / 2\<rparr>,
               \<lparr>X = - 1, Y = 1 / 4\<rparr>, \<lparr>X = - 1, Y = 0\<rparr>]]]"
proof -
  let ?way = "\<lparr>w_ID = 7, w_Refs = [1, 2, 3, 1], w_Tags = []\<rparr>"
  let ?st = "ex_state\<lparr>st_nodes := ex_nodes\<rparr>"
  have sel: "(if (None :: FilterFunc option) = None then Some (Inr (0, True))
            else Map_Get (st_selectedWays ?st) (w_ID ?way)) = Some (Inr (0, True))"
    by simp
  have refs: "w_Refs ?way \<noteq> []" by simp
  have nodes: "st_nodes ?st = ex_nodes" "st_geometries ?st = (\<lambda>c. [])"
    by (simp_all add: ex_state_def)
  from way_post_clip[OF sel refs, of ex_bounds] obtain st' where
    r: "wayFunc ex_bounds None ?way ?st = Some (Inr st')"
    and p: "map_option rw_Coords (st_ways st' 7)
          = Some [\<lparr>X = - 1, Y = 0\<rparr>, \<lparr>X = 0, Y = 0\<rparr>, \<lparr>X = 0, Y = 1 / 2\<rparr>,
                  \<lparr>X = - 1, Y = 1 / 4\<rparr>, \<lparr>X = - 1, Y = 0\<rparr>] \<and>
        map g_LineStrings (st_geometries st' 0)
          = [[[\<lparr>X = - 1, Y = 0\<rparr>, \<lparr>X = 0, Y = 0\<rparr>, \<lparr>X = 0, Y = 1 / 2\<rparr>,
               \<lparr>X = - 1, Y = 1 / 4\<rparr>, \<lparr>X = - 1, Y = 0\<rparr>]]]"
    unfolding nodes
    by (auto simp: ex_clipWay Let_def wayGeometry_def IsArea_def)
  show ?thesis
    by (rule exI[of _ st']) (use r p in simp)
qed

section \<open>Proofs: a clockwise area way\<close>

lemma cw_node_pass:
  "run_pass (nodeFunc cw_bounds None) (f_nodes cw_file) ex_state
     = Some (Inr (ex_state\<lparr>st_nodes := cw_nodes,
          st_geometries := (\<lambda>c. [])(0 := [node_point 1 0 0, node_point 2 0 2,
                                            node_point 3 2 2, node_point 4 2 0])\<rparr>))"
  by (simp add: cw_file_def nodeFunc_no_filter rbind_def cohenSutherlandOutcode_def
      cw_bounds_def ex_state_def cw_nodes_def node_point_def Let_def)

lemma cw_clipStep_inside:
  "cw_nodes ref = Some \<lparr>wn_Coord = c, wn_Class = 0, wn_Outcode = 0\<rparr> \<Longrightarrow>
   prevOutcode = 0 \<or> prevOutcode = 15 \<Longrightarrow>
   clipStep cw_bounds cw_nodes (coords, prevCoord, prevOutcode) ref = (coords @ [c], c, 0)"
  by (auto simp: clipStep_def Let_def)

lemma cw_clipWay: "clipWay cw_bounds cw_nodes [1, 2, 3, 4, 1] = cw_ring"
proof -
  have n: "cw_nodes 1 = Some \<lparr>wn_Coord = \<lparr>X = 0, Y = 0\<rparr>, wn_Class = 0, wn_Outcode = 0\<rparr>"
    "cw_nodes 2 = Some \<lparr>wn_Coord = \<lparr>X = 0, Y = 2\<rparr>, wn_Class = 0, wn_Outcode = 0\<rparr>"
    "cw_nodes 3 = Some \<lparr>wn_Coord = \<lparr>X = 2, Y = 2\<rparr>, wn_Class = 0, wn_Outcode = 0\<rparr>"
    "cw_nodes 4 = Some \<lparr>wn_Coord = \<lparr>X = 2, Y = 0\<rparr>, wn_Class = 0, wn_Outcode = 0\<rparr>"
    by (simp_all add: cw_nodes_def)
  show ?thesis
    by (simp add: clipWay_def cw_clipStep_inside[OF n(1)] cw_clipStep_inside[OF n(2)]
        cw_clipStep_inside[OF n(3)] cw_clipStep_inside[OF n(4)] cw_ring_def)
qed

lemma cw_shoelace: "shoelace cw_ring = - 8"
  by (simp add: shoelace_def cw_ring_def Let_def upt_rec)

lemma cw_IsArea: "IsArea (w_Tags cw_way)"
  by (simp add: IsArea_def cw_way_def)

lemma cw_wayGeometry: "wayGeometry cw_way True cw_ring = cw_polygon"
  using cw_IsArea by (simp add: wayGeometry_def cw_polygon_def Let_def) (simp add: cw_way_def)

lemma cw_way_pass:
  assumes "st_nodes st = cw_nodes"
  shows "run_pass (wayFunc cw_bounds None) (f_ways cw_file) st
     = Some (Inr (st\<lparr>st_geometries := (st_geometries st)(0 := st_geometries st 0 @ [cw_polygon]),
                     st_ways := (st_ways st)(10 \<mapsto>
                        \<lparr>rw_Coords = cw_ring, rw_First = 1, rw_Last = 1\<rparr>)\<rparr>))"
proof -
  have refs: "w_Refs cw_way = [1, 2, 3, 4, 1]" "w_ID cw_way = 10"
    by (simp_all add: cw_way_def)
  have pc: "postClip True cw_ring = cw_ring"
    by (simp add: postClip_def cw_ring_def)
  have ne: "cw_ring \<noteq> []"
    by (simp add: cw_ring_def)
  show ?thesis
    by (simp add: cw_file_def wayFunc_def rbind_def refs assms cw_clipWay pc ne
        cw_wayGeometry Let_def)
qed

text \<open>
  C1 (way emission). On the clockwise square of scenario 4 \<open>Extract\<close> returns the four
  points and one polygon for way 10; the polygon is marked \<open>Fill = True\<close> and its ring is
  the clockwise input, unreversed, with shoelace sum \<open>- 8\<close>.
\<close>

theorem Extract_clockwise_area_way_not_reversed:
  "Extract cw_bounds None cw_file
     = Some (Inr ((\<lambda>c. [])(0 := [node_point 1 0 0, node_point 2 0 2, node_point 3 2 2,
                                   node_point 4 2 0, cw_polygon]), [])) \<and>
   g_Polygons cw_polygon = [\<lparr>p_Coords = cw_ring, p_Fill = True\<rparr>] \<and>
   shoelace cw_ring = - 8 \<and> \<not> isCCW cw_ring \<and>
   shoelace (reverseOrientation cw_ring) = 8"
proof -
  let ?st1 = "ex_state\<lparr>st_nodes := cw_nodes,
          st_geometries := (\<lambda>c. [])(0 := [node_point 1 0 0, node_point 2 0 2,
                                            node_point 3 2 2, node_point 4 2 0])\<rparr>"
  have w: "run_pass (wayFunc cw_bounds None) (f_ways cw_file) ?st1
     = Some (Inr (?st1\<lparr>st_geometries := (st_geometries ?st1)(0 := st_geometries ?st1 0 @ [cw_polygon]),
                     st_ways := (st_ways ?st1)(10 \<mapsto>
                        \<lparr>rw_Coords = cw_ring, rw_First = 1, rw_Last = 1\<rparr>)\<rparr>))"
    by (rule cw_way_pass) simp
  have rel: "f_relations cw_file = []"
    by (simp add: cw_file_def)
  have e: "Extract cw_bounds None cw_file
     = Some (Inr ((\<lambda>c. [])(0 := [node_point 1 0 0, node_point 2 0 2, node_point 3 2 2,
                                   node_point 4 2 0, cw_polygon]), []))"
    unfolding Extract_def NewUint64Map_8_06
    by (simp add: ex_state_def[symmetric] cw_node_pass rbind_def w rel)
       (simp add: ex_state_def)
  have r: "shoelace (reverseOrientation cw_ring) = 8"
    by (simp add: reverseOrientation_def shoelace_def cw_ring_def Let_def upt_rec)
  show ?thesis
    using e r by (simp add: cw_polygon_def cw_shoelace isCCW_def)
qed

section \<open>Proofs: Stats\<close>

lemma rbind_Inr_iff:
  "rbind r f = Some (Inr y) \<longleftrightarrow> (\<exists>a. r = Some (Inr a) \<and> f a = Some (Inr y))"
  by (auto simp: rbind_def split: option.splits sum.splits)

lemma stats_members_no_relation:
  "list_all (\<lambda>m. mb_Type m \<noteq> RelationType) members \<Longrightarrow>
   stats_members rid members (ns, ws, rs, parents) = (ns', ws', rs', parents') \<Longrightarrow>
   rs' = rs \<and> parents' = parents"
  by (induction members arbitrary: ns ws) (auto split: if_splits)

lemma iterate_result_preserves:
  assumes "\<And>k s s'. fn k s = Some (Inr s') \<Longrightarrow> P s \<Longrightarrow> P s'"
  shows "iterate_result fn ks s = Some (Inr s') \<Longrightarrow> P s \<Longrightarrow> P s'"
  by (induction ks arbitrary: s) (auto simp: rbind_Inr_iff intro: assms)

lemma stats_pass_preserves:
  assumes "\<And>e s s'. e \<in> set es \<Longrightarrow> cb e s = Some (Inr s') \<Longrightarrow> P s \<Longrightarrow> P s'"
  shows "stats_pass cb es s = Some (Inr s') \<Longrightarrow> P s \<Longrightarrow> P s'"
  using assms
proof (induction es arbitrary: s)
  case Nil
  then show ?case by simp
next
  case (Cons e es)
  from Cons.prems(1) obtain s1 where s1: "cb e s = Some (Inr s1)"
    and rest: "stats_pass cb es s1 = Some (Inr s')"
    by (auto simp: rbind_Inr_iff)
  have "P s1" using Cons.prems(3)[OF _ s1 Cons.prems(2)] by simp
  moreover have "\<And>e' t t'. e' \<in> set es \<Longrightarrow> cb e' t = Some (Inr t') \<Longrightarrow> P t \<Longrightarrow> P t'"
    using Cons.prems(3) by (meson list.set_intros(2))
  ultimately show ?case
    using Cons.IH[OF rest] by blast
qed

lemma stats_nodeFunc_no_depths:
  "stats_nodeFunc node st = Some (Inr st') \<Longrightarrow> no_depths st \<Longrightarrow> no_depths st'"
  by (auto simp: stats_nodeFunc_def rbind_Inr_iff no_depths_def Let_def split: if_splits)

lemma stats_wayFunc_no_depths:
  "stats_wayFunc way st = Some (Inr st') \<Longrightarrow> no_depths st \<Longrightarrow> no_depths st'"
  by (auto simp: stats_wayFunc_def rbind_Inr_iff no_depths_def Let_def split: if_splits)

lemma stats_relationFunc_no_depths:
  assumes "stats_relationFunc relation st = Some (Inr st')"
    and "list_all (\<lambda>m. mb_Type m \<noteq> RelationType) (r_Members relation)"
    and "no_depths st"
  shows "no_depths st'"
proof -
  obtain ns ws rs ps where sm:
    "stats_members (r_ID relation) (r_Members relation) ([], [], [], ss_relationParents st)
       = (ns, ws, rs, ps)"
    by (metis prod_cases4)
  from stats_members_no_relation[OF assms(2) sm] have rs: "rs = []" by simp
  show ?thesis
    using assms(1,3)
    by (auto simp: stats_relationFunc_def rbind_Inr_iff no_depths_def Let_def sm rs
        split: if_splits)
qed

lemma stats_finish_no_depths:
  assumes "no_depths st"
  shows "stats_finish st \<noteq> Some (Inr stats)"
proof
  assume fin: "stats_finish st = Some (Inr stats)"
  let ?P = "\<lambda>s. NumRelationDepths s = []"
  from fin obtain s1 s2 s3 s4 where
    i1: "iterate_result
              (\<lambda>id' stats. rbind (Set_Has (ss_nodeIDs st) id') (\<lambda>has.
                 Some (Inr (if \<not> has then stats\<lparr>MissingWayNodes := MissingWayNodes stats + 1\<rparr>
                            else stats))))
              (Set_keys (ss_wayNodeIDs st)) (ss_stats st) = Some (Inr s1)"
    and i2: "iterate_result
              (\<lambda>id' stats. rbind (Set_Has (ss_nodeIDs st) id') (\<lambda>has.
                 if \<not> has
                 then Some (Inr (stats\<lparr>MissingRelationNodes := MissingRelationNodes stats + 1\<rparr>))
                 else rbind (Set_Has (ss_wayNodeIDs st) id') (\<lambda>has2.
                   Some (Inr (if has2
                      then stats\<lparr>DoublyReferencedNodes := DoublyReferencedNodes stats + 1\<rparr>
                      else stats)))))
              (Set_keys (ss_relationNodeIDs st)) s1 = Some (Inr s2)"
    and i3: "iterate_result
              (\<lambda>id' stats. rbind (Set_Has (ss_wayIDs st) id') (\<lambda>has.
                 Some (Inr (if \<not> has
                    then stats\<lparr>MissingRelationWays := MissingRelationWays stats + 1\<rparr>
                    else stats))))
              (Set_keys (ss_relationWayIDs st)) s2 = Some (Inr s3)"
    and i4: "s4 = s3"
    and last: "0 < length (NumRelationDepths s4)"
    using assms
    by (auto simp: stats_finish_def rbind_Inr_iff no_depths_def Let_def split: if_splits)
  have "?P (ss_stats st)" using assms by (simp add: no_depths_def)
  then have "?P s1"
    by (rule iterate_result_preserves[OF _ i1, rotated])
       (auto simp: rbind_Inr_iff split: if_splits)
  then have "?P s2"
    by (rule iterate_result_preserves[OF _ i2, rotated])
       (auto simp: rbind_Inr_iff split: if_splits)
  then have "?P s3"
    by (rule iterate_result_preserves[OF _ i3, rotated])
       (auto simp: rbind_Inr_iff split: if_splits)
  with i4 last show False by simp
qed

lemma no_depths_init: "no_depths (stats_init rng)"
  by (simp add: no_depths_def stats_init_def Set_keys_def set_8_06_def FREE_KEY_def)

lemma Parser_Stats_no_nested_relations:
  assumes "list_all (\<lambda>r. list_all (\<lambda>m. mb_Type m \<noteq> RelationType) (r_Members r))
             (f_relations file)"
  shows "Parser_Stats rng file \<noteq> Some (Inr stats)"
proof
  assume "Parser_Stats rng file = Some (Inr stats)"
  then obtain s1 s2 s3 where
    p1: "stats_pass stats_nodeFunc (f_nodes file) (stats_init rng) = Some (Inr s1)"
    and p2: "stats_pass stats_wayFunc (f_ways file) s1 = Some (Inr s2)"
    and p3: "stats_pass stats_relationFunc (f_relations file) s2 = Some (Inr s3)"
    and fin: "stats_finish s3 = Some (Inr stats)"
    by (auto simp: Parser_Stats_def rbind_Inr_iff)
  have n1: "no_depths s1"
    using stats_pass_preserves[where P = no_depths, OF stats_nodeFunc_no_depths p1 no_depths_init]
    by simp
  have n2: "no_depths s2"
    using stats_pass_preserves[where P = no_depths, OF stats_wayFunc_no_depths p2 n1]
    by simp
  have "\<And>e s s'. e \<in> set (f_relations file) \<Longrightarrow> stats_relationFunc e s = Some (Inr s')
      \<Longrightarrow> no_depths s \<Longrightarrow> no_depths s'"
    using assms stats_relationFunc_no_depths by (auto simp: list_all_iff)
  then have "no_depths s3"
    using stats_pass_preserves[where P = no_depths, OF _ p3 n2] by blast
  with fin show False
    using stats_finish_no_depths by blast
qed

lemma stats_nodeFunc_returns:
  assumes "Set_Add (ss_nodeIDs st) (n_ID node) = Some (Inr s')"
  shows "\<exists>st'. stats_nodeFunc node st = Some (Inr st')
           \<and> NumRelationDepths (ss_stats st') = NumRelationDepths (ss_stats st)
           \<and> ss_wayNodeIDs st' = ss_wayNodeIDs st
           \<and> ss_relationNodeIDs st' = ss_relationNodeIDs st
           \<and> ss_relationWayIDs st' = ss_relationWayIDs st
           \<and> ss_relationRelationIDs st' = ss_relationRelationIDs st"
  using assms by (simp add: stats_nodeFunc_def rbind_def Let_def)

lemma stats_finish_no_references:
  assumes "Set_keys (ss_wayNodeIDs st) = []" "Set_keys (ss_relationNodeIDs st) = []"
    "Set_keys (ss_relationWayIDs st) = []" "no_depths st"
  shows "stats_finish st = Some (Inl index_out_of_range)"
  using assms by (simp add: stats_finish_def rbind_def no_depths_def Let_def)

text \<open>
  C5. A well-formed file in which no relation has a relation as a member never makes
  \<open>Parser_Stats\<close> return a statistics value (lemma \<open>Parser_Stats_no_nested_relations\<close>):
  \<^verbatim>\<open>NumRelationDepths\<close> is still empty when line 856 assigns to its element 0. On the file
  with the single node 1 at (0, 0) every call before that line returns, and the result is
  the index-out-of-range panic.
\<close>

theorem Parser_Stats_single_node_panics:
  "Parser_Stats (\<lambda>k. 0)
     \<lparr>f_nodes = [\<lparr>n_ID = 1, n_Lon = 0, n_Lat = 0, n_Tags = []\<rparr>], f_ways = [], f_relations = []\<rparr>
   = Some (Inl index_out_of_range)"
proof -
  let ?st = "stats_init (\<lambda>k. 0)"
  let ?node = "\<lparr>n_ID = 1, n_Lon = 0, n_Lat = 0, n_Tags = []\<rparr>"
  have "Set_Add (ss_nodeIDs ?st) (n_ID ?node)
      = Some (Inr (set_8_06\<lparr>s_data := (replicate 16 0)[14 := 1], s_size := 1\<rparr>))"
    by (simp add: stats_init_def Set_Add_fresh_1)
  from stats_nodeFunc_returns[OF this] obtain s1 where
    nf: "stats_nodeFunc ?node ?st = Some (Inr s1)"
    and nd: "NumRelationDepths (ss_stats s1) = NumRelationDepths (ss_stats ?st)"
      "ss_wayNodeIDs s1 = ss_wayNodeIDs ?st" "ss_relationNodeIDs s1 = ss_relationNodeIDs ?st"
      "ss_relationWayIDs s1 = ss_relationWayIDs ?st"
      "ss_relationRelationIDs s1 = ss_relationRelationIDs ?st"
    by blast
  have "stats_finish s1 = Some (Inl index_out_of_range)"
    using nd by (intro stats_finish_no_references)
      (simp_all add: stats_init_def Set_keys_fresh no_depths_def)
  then show ?thesis
    by (simp add: Parser_Stats_def rbind_def nf)
qed

section \<open>Proofs: the start of a parse\<close>

lemma Parse_start_seeks:
  "1 \<le> z_Workers z \<Longrightarrow> rd_seekable (z_r z) \<Longrightarrow>
   Parse_start ncpu z
     = Inr (z\<lparr>z_r := (z_r z)\<lparr>rd_offset := 0\<rparr>, z_pos := 0\<rparr>, z_Workers z, z_Workers z * 2)"
  by (simp add: Parse_start_def Seek_start_def Let_def)

lemma Parse_start_no_seek:
  "z_Workers z = 0 \<Longrightarrow> Parse_start ncpu z = Inr (z\<lparr>z_pos := 0\<rparr>, ncpu, 0)"
  by (simp add: Parse_start_def Let_def)

lemma Parse_start_negative:
  "z_Workers z < 0 \<Longrightarrow> Parse_start ncpu z = Inl (Panic ''makechan: size out of range'')"
  by (simp add: Parse_start_def Let_def)

text \<open>
  C9. A parser over six bytes whose reader stands at offset 6, the end of the input, as a
  first parse leaves it. With \<open>Workers = 4\<close> the next parse seeks and reads the header
  length at offset 0. With \<open>Workers = 0\<close> the worker count becomes the default, 8, but the
  seek is skipped (it sits in the \<^verbatim>\<open>else if\<close> of the \<^verbatim>\<open>workers < 1\<close> test): the reader
  stays at offset 6 and the first read is \<^verbatim>\<open>io.EOF\<close>. With \<open>Workers = - 1\<close> the parse
  panics when it makes the channel of size \<^verbatim>\<open>z.Workers*2\<close>.
\<close>

theorem Parse_does_not_seek_for_default_workers:
  "Parse_first_read 8
     \<lparr>z_r = \<lparr>rd_data = [0, 0, 0, 1, 10, 0], rd_offset = 6, rd_seekable = True\<rparr>,
      z_Workers = 4, z_pos = 6\<rparr> = Inr (0, [0, 0, 0, 1]) \<and>
   Parse_start 8
     \<lparr>z_r = \<lparr>rd_data = [0, 0, 0, 1, 10, 0], rd_offset = 6, rd_seekable = True\<rparr>,
      z_Workers = 0, z_pos = 6\<rparr>
     = Inr (\<lparr>z_r = \<lparr>rd_data = [0, 0, 0, 1, 10, 0], rd_offset = 6, rd_seekable = True\<rparr>,
             z_Workers = 0, z_pos = 0\<rparr>, 8, 0) \<and>
   Parse_first_read 8
     \<lparr>z_r = \<lparr>rd_data = [0, 0, 0, 1, 10, 0], rd_offset = 6, rd_seekable = True\<rparr>,
      z_Workers = 0, z_pos = 6\<rparr> = Inl (Err ''EOF'') \<and>
   Parse_start 8
     \<lparr>z_r = \<lparr>rd_data = [0, 0, 0, 1, 10, 0], rd_offset = 6, rd_seekable = True\<rparr>,
      z_Workers = - 1, z_pos = 6\<rparr> = Inl (Panic ''makechan: size out of range'')"
  by (simp add: Parse_first_read_def Parse_start_def Seek_start_def ReadFull_def Let_def)

end
